theory Spec2Isabelle
  imports Complex_Main "HOL-Library.AList" "HOL-Library.Multiset"
begin

section \<open>Numbers, operation counts and the environment\<close>

text \<open>
  The scheduler is JavaScript. Its numbers are modelled as exact reals; the world it
  talks to (the Netscript object \<open>ns\<close> and the clock) is a record of what a
  read returns, and only a batch start, a sleep or an await changes it. A division by
  zero makes a JavaScript run go on with NaN or an infinity, which a real cannot hold:
  the model stops there with \<open>NonFinite\<close> (so does the sort of
  \<open>getTargetPriority\<close>, whose order is not fixed by the language once a key
  is NaN). An \<open>Error\<close> the source throws is carried with its message, a list of
  texts and numbers; \<open>TypeError\<close> is a property read on \<open>undefined\<close>;
  \<open>OutOfFuel\<close> is a \<open>while (true)\<close> that has not returned within
  the fuel given.
\<close>

type_synonym server = string

datatype msg_part = Txt string | Num real | Newline

datatype abort = Error "msg_part list" | TypeError | NonFinite | OutOfFuel

definition js_div :: "real \<Rightarrow> real \<Rightarrow> abort + real" where
  "js_div a b = (if b = 0 then Inl NonFinite else Inr (a / b))"

definition bindE :: "abort + 'a \<Rightarrow> ('a \<Rightarrow> abort + 'b) \<Rightarrow> abort + 'b" where
  "bindE m f = (case m of Inl e \<Rightarrow> Inl e | Inr x \<Rightarrow> f x)"

text \<open>
  Modelled from the spec: the class \<open>Threads\<close> and the table \<open>RamUsage\<close>
  of HybridShotgunBatcher/Helpers, and the batch objects of HybridShotgunBatcher/Batching,
  are not among the source files. The spec's operation-count vector: three counts, a
  resource cost that is the weighted sum of the counts under a fixed cost per operation
  kind, and a component-wise equality.
\<close>

record Threads =
  hack :: int
  grow :: int
  weaken :: int

record RamUsage =
  hackRam :: real
  growRam :: real
  weakenRam :: real

definition ramUsage :: "RamUsage \<Rightarrow> Threads \<Rightarrow> real" where
  "ramUsage R t =
     of_int (hack t) * hackRam R + of_int (grow t) * growRam R + of_int (weaken t) * weakenRam R"

definition equal_threads :: "Threads \<Rightarrow> Threads \<Rightarrow> bool" where
  "equal_threads a b \<longleftrightarrow> hack a = hack b \<and> grow a = grow b \<and> weaken a = weaken b"

text \<open>What the Netscript object and the clock answer, at one moment.\<close>

record world =
  dateNow :: real
  getHostname :: server
  hasRootAccess :: "server \<Rightarrow> bool"
  getServerMaxRam :: "server \<Rightarrow> real"
  getScriptRam :: "string \<Rightarrow> real"
  ps :: "server \<Rightarrow> (string \<times> real) list"
  getServerSecurityLevel :: "server \<Rightarrow> real"
  getServerMinSecurityLevel :: "server \<Rightarrow> real"
  getServerMoneyAvailable :: "server \<Rightarrow> real"
  getServerMaxMoney :: "server \<Rightarrow> real"
  getServerRequiredHackingLevel :: "server \<Rightarrow> real"
  getHackingLevel :: real
  getWeakenTime :: "server \<Rightarrow> real"
  baseDifficulty :: "server \<Rightarrow> real"
  weakenAnalyze :: "real \<Rightarrow> real"
  growthAnalyze :: "server \<Rightarrow> real \<Rightarrow> real"
  growthAnalyzeSecurity :: "real \<Rightarrow> real"
  ls :: "server \<Rightarrow> string list"
  getServerNumPortsRequired :: "server \<Rightarrow> nat"

text \<open>
  The constants of HybridShotgunBatcher/Settings (not among the source files), taken as
  parameters.
\<close>

record settings =
  averageBatchASec :: real
  execMargin :: real
  maxShotgunShells :: real
  minDeltaBatchExec :: real
  WGHMargin :: real

text \<open>
  The functions this repository imports from modules that are not among the source
  files (Other/ScanServers, HybridShotgunBatcher/Batching, /Other, /SecHoles, /Helpers,
  Helpers/MyFormulas, Helpers/EstimateX), taken as parameters. The queries are functions
  of the world; \<open>inLowSecHole\<close>, \<open>getNextLowSecEnd\<close> and
  \<open>getNextSecHole\<close> are functions of an instant (called without an argument
  they read the clock). \<open>estimateX\<close> is given by the trial points at which it
  calls the cost function it is handed, in order.
\<close>

record lib =
  getServers :: "world \<Rightarrow> server list"
  getMoneyPerMs :: "world \<Rightarrow> server \<Rightarrow> Threads \<Rightarrow> real"
  getBestFixBatch :: "world \<Rightarrow> server \<Rightarrow> real \<Rightarrow> Threads"
  getOptimalFixBatch :: "world \<Rightarrow> server \<Rightarrow> Threads"
  getBestMoneyBatch :: "world \<Rightarrow> server \<Rightarrow> real \<Rightarrow> Threads"
  getOptimalMoneyBatch :: "world \<Rightarrow> server \<Rightarrow> Threads"
  getMinSecWeakenTime :: "world \<Rightarrow> server \<Rightarrow> real"
  inLowSecHole :: "real \<Rightarrow> bool"
  getNextLowSecEnd :: "real \<Rightarrow> real"
  getNextSecHole :: "real \<Rightarrow> real"
  getAvailableRam :: "world \<Rightarrow> server list \<Rightarrow> real"
  estimateX :: "(real \<Rightarrow> real) \<Rightarrow> real \<Rightarrow> real \<Rightarrow> real \<Rightarrow> real list"

text \<open>
  What the outside does to the world when the scheduler acts: a batch start of
  Batching (anchored at an execution time) or of Helpers (on a list of servers), the
  await of the next security hole, a sleep, and the port openers and nuke of Netscript.
\<close>

record effects =
  batchStarted :: "server \<Rightarrow> Threads \<Rightarrow> real \<Rightarrow> world \<Rightarrow> world"
  threadsStarted :: "server \<Rightarrow> Threads \<Rightarrow> server list \<Rightarrow> world \<Rightarrow> world"
  goToNextSecHole :: "world \<Rightarrow> world"
  slept :: "real \<Rightarrow> world \<Rightarrow> world"
  portOpened :: "string \<Rightarrow> server \<Rightarrow> world \<Rightarrow> world"
  nuked :: "server \<Rightarrow> world \<Rightarrow> world"

record env =
  st :: settings
  cost :: RamUsage
  lb :: lib
  fx :: effects

text \<open>A started batch, as the scheduler asked for it.\<close>

datatype launch =
  StartBatch server Threads real
  | StartThreads server Threads "server list"

text \<open>The machine: the world now and the batches started so far, oldest first.\<close>

record machine =
  ns :: world
  started :: "launch list"

definition startBatch :: "env \<Rightarrow> server \<Rightarrow> Threads \<Rightarrow> real \<Rightarrow> machine \<Rightarrow> machine" where
  "startBatch E target b t m =
     \<lparr>ns = batchStarted (fx E) target b t (ns m), started = started m @ [StartBatch target b t]\<rparr>"

definition startThreads :: "env \<Rightarrow> server \<Rightarrow> Threads \<Rightarrow> server list \<Rightarrow> machine \<Rightarrow> machine" where
  "startThreads E target b servers m =
     \<lparr>ns = threadsStarted (fx E) target b servers (ns m),
      started = started m @ [StartThreads target b servers]\<rparr>"

definition sleep :: "env \<Rightarrow> real \<Rightarrow> machine \<Rightarrow> machine" where
  "sleep E ms m = m\<lparr>ns := slept (fx E) ms (ns m)\<rparr>"

section \<open>HsbTargeter: capacity\<close>

definition hostRamMargin :: real where
  "hostRamMargin = 100"

definition getAvailableWGHServers :: "env \<Rightarrow> world \<Rightarrow> server list" where
  "getAvailableWGHServers E w =
     (let hostName = getHostname w;
          allServers = getServers (lb E) w;
          availableServers =
            filter (\<lambda>x. \<not> (x = getHostname w) \<and> hasRootAccess w x) allServers;
          serverRam =
            foldl (\<lambda>partialSum serverName. partialSum + max 0 (getServerMaxRam w serverName - 2))
              0 availableServers;
          hostTotalAvailableRam = getServerMaxRam w hostName
      in if serverRam < hostTotalAvailableRam then availableServers @ [hostName]
         else availableServers)"

definition wghScripts :: "string list" where
  "wghScripts =
     [''HybridShotgunBatcher/ThreadScripts/Grow.js'',
      ''HybridShotgunBatcher/ThreadScripts/Weaken.js'',
      ''HybridShotgunBatcher/ThreadScripts/Hack.js'']"

definition getServerHsbUsedRam :: "world \<Rightarrow> server \<Rightarrow> real" where
  "getServerHsbUsedRam w srv =
     foldl (\<lambda>usedRam (filename, threads).
              usedRam + (if filename \<in> set wghScripts then getScriptRam w filename else 0) * threads)
       0 (ps w srv)"

definition getServerAvailableHsbRam :: "world \<Rightarrow> server \<Rightarrow> real" where
  "getServerAvailableHsbRam w srv =
     (let hsbUsedRam = getServerHsbUsedRam w srv;
          totHsbAvailableRam = getServerMaxRam w srv * (95 / 100);
          hsbAvailableRam = totHsbAvailableRam - hsbUsedRam
      in if srv = getHostname w then hsbAvailableRam - hostRamMargin
         else hsbAvailableRam - 2)"

definition getAvailableHsbRam :: "env \<Rightarrow> world \<Rightarrow> real" where
  "getAvailableHsbRam E w =
     foldl (\<lambda>totalHsbAvailableRam srv. totalHsbAvailableRam + getServerAvailableHsbRam w srv)
       0 (getAvailableWGHServers E w)"

section \<open>HsbTargeter: the target records and the priority\<close>

text \<open>
  \<open>fixedStatus\<close> holds a number (the execution time of the fix batch), or
  the string "fixing", or the string "fixed".
\<close>

datatype fixedStatus = Deadline real | Fixing | Fixed

record targetData =
  execTime :: real
  fixedStatus :: fixedStatus
  batch :: Threads
  baseSecurity :: real
  baseMoney :: real

text \<open>
  \<open>targetsData\<close> is an object keyed by server name: its keys are walked in
  the order they were first assigned, and an assignment to a key already there replaces
  the entry where it stands.
\<close>

type_synonym targetsData = "(server \<times> targetData) list"

definition getTargetsData :: "env \<Rightarrow> world \<Rightarrow> targetsData" where
  "getTargetsData E w =
     foldl (\<lambda>targetsData target.
              AList.update target
                \<lparr>execTime = dateNow w,
                 fixedStatus = Deadline 0,
                 batch = getOptimalMoneyBatch (lb E) w target,
                 baseSecurity = getServerSecurityLevel w target,
                 baseMoney = getServerMoneyAvailable w target\<rparr>
                targetsData)
       [] (getServers (lb E) w)"

definition ensureCanHack :: "world \<Rightarrow> server \<Rightarrow> bool" where
  "ensureCanHack w target =
     (if getServerMaxMoney w target = 0 then False
      else if \<not> hasRootAccess w target then False
      else if getServerRequiredHackingLevel w target < getHackingLevel w then False
      else True)"

text \<open>The first loop of \<open>getTargetPriority\<close>: a pair of name and money per ms per RAM for every key.\<close>

fun targetInfo :: "env \<Rightarrow> world \<Rightarrow> targetsData \<Rightarrow> abort + (server \<times> real) list" where
  "targetInfo E w [] = Inr []"
| "targetInfo E w ((target, targetData) # rest) =
     (let batch = batch targetData;
          moneyPerMs = getMoneyPerMs (lb E) w target batch
      in bindE (js_div moneyPerMs (ramUsage (cost E) batch)) (\<lambda>moneyPerMsPerRam.
         bindE (targetInfo E w rest) (\<lambda>info.
         Inr ((target, moneyPerMsPerRam) # info))))"

text \<open>
  \<open>targetInfo.sort((a, b) => b[1] - a[1])\<close>: the sort of an array is stable, and
  on numbers this comparator orders by descending second component.
\<close>

definition sortDescending :: "(server \<times> real) list \<Rightarrow> (server \<times> real) list" where
  "sortDescending info = sort_key (\<lambda>(target, moneyPerMsPerRam). - moneyPerMsPerRam) info"

text \<open>The RAM of the most batches of a target that can run at once (\<open>maxRam\<close> in the second loop).\<close>

definition maxRam :: "env \<Rightarrow> world \<Rightarrow> targetData \<Rightarrow> server \<Rightarrow> abort + real" where
  "maxRam E w targetData target =
     (let batch = batch targetData;
          averageBatchTime = getMinSecWeakenTime (lb E) w target + averageBatchASec (st E)
      in bindE (js_div averageBatchTime (execMargin (st E))) (\<lambda>q.
         let maxConcurrentBatches = q * maxShotgunShells (st E)
         in Inr (ramUsage (cost E) batch * maxConcurrentBatches)))"

text \<open>The second loop, from the targets still to walk, the priority list so far and the RAM left.\<close>

fun priorityLoop ::
  "env \<Rightarrow> world \<Rightarrow> targetsData \<Rightarrow> server list \<Rightarrow> server list \<Rightarrow> real
     \<Rightarrow> abort + (server list \<times> (server option \<times> real))" where
  "priorityLoop E w targetsData [] targetPriority aRam = Inr (targetPriority, (None, 0))"
| "priorityLoop E w targetsData (target # rest) targetPriority aRam =
     (if ensureCanHack w target then priorityLoop E w targetsData rest targetPriority aRam
      else case map_of targetsData target of
        None \<Rightarrow> Inl TypeError
      | Some targetData \<Rightarrow>
          bindE (maxRam E w targetData target) (\<lambda>maxRam.
            if maxRam > aRam then Inr (targetPriority @ [target], (Some target, aRam))
            else priorityLoop E w targetsData rest (targetPriority @ [target]) (aRam - maxRam)))"

definition getTargetPriority ::
  "env \<Rightarrow> world \<Rightarrow> targetsData \<Rightarrow> abort + (server list \<times> (server option \<times> real))" where
  "getTargetPriority E w targetsData =
     bindE (targetInfo E w targetsData) (\<lambda>info.
       priorityLoop E w targetsData (map fst (sortDescending info)) [] (getAvailableHsbRam E w))"

section \<open>HsbTargeter: the state of a target\<close>

definition targetFixValid :: "world \<Rightarrow> server \<Rightarrow> targetData \<Rightarrow> abort + bool" where
  "targetFixValid w target targetData =
     (if getServerSecurityLevel w target > baseSecurity targetData then
        Inl (Error
          [Txt ''security larger than the baseSecurity'', Newline,
           Txt ''    targetData.baseSecurity: '', Num (baseSecurity targetData), Newline,
           Txt ''    current security: '', Num (getServerSecurityLevel w target), Newline,
           Txt ''    min security: '', Num (getServerSecurityLevel w target), Newline,
           Txt ''    initial security: '', Num (baseDifficulty w target)])
      else if getServerSecurityLevel w target < baseSecurity targetData then
        Inl (Error
          [Txt ''targetData.baseSecurity measurement was incorrect'', Newline,
           Txt ''    targetData.baseSecurity: '', Num (baseSecurity targetData), Newline,
           Txt ''    current security: '', Num (getServerSecurityLevel w target), Newline,
           Txt ''    min security: '', Num (getServerSecurityLevel w target), Newline,
           Txt ''    initial security: '', Num (baseDifficulty w target)])
      else if getServerMoneyAvailable w target > baseMoney targetData then
        Inl (Error
          [Txt ''money less than the baseMoney'', Newline,
           Txt ''    targetData.baseMoney: '', Num (baseMoney targetData), Newline,
           Txt ''    current money: '', Num (getServerMoneyAvailable w target), Newline,
           Txt ''    max money: '', Num (getServerMaxMoney w target)])
      else if getServerMoneyAvailable w target < baseMoney targetData then
        Inl (Error
          [Txt ''money less than the baseMoney'', Newline,
           Txt ''    targetData.baseMoney: '', Num (baseMoney targetData), Newline,
           Txt ''    current money: '', Num (getServerMoneyAvailable w target), Newline,
           Txt ''    max money: '', Num (getServerMaxMoney w target)])
      else Inr True)"

definition targetFixed :: "world \<Rightarrow> server \<Rightarrow> bool" where
  "targetFixed w target =
     (if getServerSecurityLevel w target - getServerMinSecurityLevel w target \<noteq> 0 then False
      else if getServerMaxMoney w target - getServerMoneyAvailable w target \<noteq> 0 then False
      else True)"

text \<open>
  The \<open>while (true)\<close> of \<open>ensureValidExecTime\<close>, with fuel: the answer is
  \<open>None\<close> when the fuel runs out, and the record is returned as it stands then.
\<close>

fun ensureValidExecTimeLoop ::
  "nat \<Rightarrow> env \<Rightarrow> world \<Rightarrow> server \<Rightarrow> targetData \<Rightarrow> bool option \<times> targetData" where
  "ensureValidExecTimeLoop 0 E w target targetData = (None, targetData)"
| "ensureValidExecTimeLoop (Suc fuel) E w target targetData =
     (let firstPossibleExecTime =
            getNextLowSecEnd (lb E) (dateNow w) + minDeltaBatchExec (st E) + getWeakenTime w target
      in if execTime targetData < firstPossibleExecTime then
           ensureValidExecTimeLoop fuel E w target (targetData\<lparr>execTime := firstPossibleExecTime\<rparr>)
         else if inLowSecHole (lb E) (execTime targetData) \<or>
                 inLowSecHole (lb E) (execTime targetData - minDeltaBatchExec (st E)) \<or>
                 getNextSecHole (lb E) (execTime targetData - minDeltaBatchExec (st E))
                   < execTime targetData then
           ensureValidExecTimeLoop fuel E w target
             (targetData\<lparr>execTime :=
                getNextLowSecEnd (lb E) (execTime targetData) + minDeltaBatchExec (st E)\<rparr>)
         else
           (let firstStartTime =
                  execTime targetData - getWeakenTime w target - minDeltaBatchExec (st E);
                deltaFirstStartTime = firstStartTime - getNextLowSecEnd (lb E) (dateNow w)
            in if deltaFirstStartTime > execMargin (st E) then (Some False, targetData)
               else (Some True, targetData)))"

definition ensureValidExecTime ::
  "nat \<Rightarrow> env \<Rightarrow> world \<Rightarrow> server \<Rightarrow> targetData \<Rightarrow> bool option \<times> targetData" where
  "ensureValidExecTime fuel E w target targetData =
     (if \<not> inLowSecHole (lb E) (dateNow w) then (Some False, targetData)
      else ensureValidExecTimeLoop fuel E w target targetData)"

definition speedStart :: bool where
  "speedStart = True"

text \<open>
  In the branch for a fix batch that is not the optimal one the source has the
  comparison \<open>targetData.fixedStatus == targetData.execTime\<close>, whose result is
  dropped: the record is left as it is there.
\<close>

definition ensureFixed ::
  "env \<Rightarrow> server \<Rightarrow> targetData \<Rightarrow> machine \<Rightarrow> bool \<times> targetData \<times> machine" where
  "ensureFixed E target targetData m =
     (if fixedStatus targetData = Fixed then (True, targetData, m)
      else if targetFixed (ns m) target then
        (True,
         targetData\<lparr>baseSecurity := getServerSecurityLevel (ns m) target,
                    baseMoney := getServerMoneyAvailable (ns m) target,
                    fixedStatus := Fixed\<rparr>,
         m)
      else
        (case fixedStatus targetData of
           Fixed \<Rightarrow> (True, targetData, m)
         | Fixing \<Rightarrow> (if speedStart then (True, targetData, m) else (False, targetData, m))
         | Deadline deadline \<Rightarrow>
             if deadline > dateNow (ns m) then (False, targetData, m)
             else
               (let fixBatch = getBestFixBatch (lb E) (ns m) target (getAvailableHsbRam E (ns m));
                    optimalFixBatch = getOptimalFixBatch (lb E) (ns m) target;
                    targetData1 =
                      (if equal_threads fixBatch optimalFixBatch
                       then targetData\<lparr>fixedStatus := Fixing\<rparr>
                       else targetData);
                    m1 = startBatch E target fixBatch (execTime targetData1) m;
                    targetData2 =
                      targetData1\<lparr>execTime := execTime targetData1 + minDeltaBatchExec (st E)\<rparr>
                in (False,
                    targetData2\<lparr>baseSecurity := getServerSecurityLevel (ns m1) target,
                                 baseMoney := getServerMoneyAvailable (ns m1) target\<rparr>,
                    m1))))"

section \<open>HsbTargeter: the shotguns\<close>

definition getMaxBatchesForTime :: "env \<Rightarrow> real \<Rightarrow> abort + real" where
  "getMaxBatchesForTime E firstBatchExec =
     (let lastAllowedExecTime = getNextSecHole (lb E) firstBatchExec
      in if firstBatchExec = lastAllowedExecTime - execMargin (st E) then Inr 1
         else bindE (js_div (lastAllowedExecTime - firstBatchExec) (execMargin (st E)))
                (\<lambda>q. Inr (of_int \<lceil>q\<rceil>)))"

text \<open>How often the body of \<open>for (let i = 0; i < maxBatches; i++)\<close> runs.\<close>

definition forCount :: "real \<Rightarrow> nat" where
  "forCount maxBatches = nat \<lceil>maxBatches\<rceil>"

text \<open>\<open>a % b\<close> on numbers, for a divisor that is not zero: the remainder has the sign of \<open>a\<close>.\<close>

definition js_rem :: "real \<Rightarrow> real \<Rightarrow> real" where
  "js_rem a b = a - b * of_int (if a / b < 0 then \<lceil>a / b\<rceil> else \<lfloor>a / b\<rfloor>)"

definition getSubShotgunAvailableRam ::
  "env \<Rightarrow> world \<Rightarrow> targetData \<Rightarrow> real list \<Rightarrow> real \<Rightarrow> Threads option \<times> real \<Rightarrow> real" where
  "getSubShotgunAvailableRam E w targetData subShotgunBatchExecTimes subShotgunMaxRam subBatchData =
     (let used1 =
            foldl (\<lambda>subShotgunUsedRam i.
                     let batchExecTime = subShotgunBatchExecTimes ! i
                     in if batchExecTime \<ge> dateNow w then
                          (let notCompleteBatches = length subShotgunBatchExecTimes - i
                           in subShotgunUsedRam
                                + ramUsage (cost E) (batch targetData) * real notCompleteBatches)
                        else subShotgunUsedRam)
              0 [0..<length subShotgunBatchExecTimes];
          subShotgunUsedRam =
            (case fst subBatchData of
               None \<Rightarrow> used1
             | Some subBatch \<Rightarrow>
                 if snd subBatchData \<ge> dateNow w then used1 + ramUsage (cost E) subBatch else used1);
          subShotgunAvailableRam = subShotgunMaxRam - subShotgunUsedRam
      in max 0 (min (getAvailableHsbRam E w) subShotgunAvailableRam))"

text \<open>The first loop of \<open>scheduleSubShotgun\<close>, run a given number of times.\<close>

fun subShotgunLoop ::
  "nat \<Rightarrow> env \<Rightarrow> server \<Rightarrow> real list \<Rightarrow> targetData \<Rightarrow> machine
     \<Rightarrow> real list \<times> targetData \<times> machine" where
  "subShotgunLoop 0 E target subShotgunBatchExecTimes targetData m =
     (subShotgunBatchExecTimes, targetData, m)"
| "subShotgunLoop (Suc n) E target subShotgunBatchExecTimes targetData m =
     subShotgunLoop n E target (subShotgunBatchExecTimes @ [execTime targetData])
       (targetData\<lparr>execTime := execTime targetData + minDeltaBatchExec (st E)\<rparr>)
       (startBatch E target (batch targetData) (execTime targetData) m)"

definition scheduleSubShotgun ::
  "env \<Rightarrow> server \<Rightarrow> targetData \<Rightarrow> real list \<Rightarrow> real \<Rightarrow> Threads option \<times> real \<Rightarrow> machine
     \<Rightarrow> abort + (((Threads option \<times> real) \<times> real list) \<times> targetData \<times> machine)" where
  "scheduleSubShotgun E target targetData subShotgunBatchExecTimes subShotgunMaxRam subBatchData m =
     (let availableRam =
            getSubShotgunAvailableRam E (ns m) targetData subShotgunBatchExecTimes
              subShotgunMaxRam subBatchData
      in bindE (js_div availableRam (ramUsage (cost E) (batch targetData))) (\<lambda>q.
         let maxBatchesForRam = of_int \<lfloor>q\<rfloor>
         in bindE (getMaxBatchesForTime E (execTime targetData)) (\<lambda>maxBatchesForTime.
         let maxBatches = min maxBatchesForRam maxBatchesForTime;
             (times1, targetData1, m1) =
               subShotgunLoop (forCount maxBatches) E target subShotgunBatchExecTimes targetData m
         in bindE (getMaxBatchesForTime E (execTime targetData1)) (\<lambda>spaceLeft.
            if 1 \<le> spaceLeft \<and> snd subBatchData < dateNow (ns m1) then
              (let subBatchRam = js_rem availableRam (ramUsage (cost E) (batch targetData1));
                   subBatch = getBestMoneyBatch (lb E) (ns m1) target subBatchRam;
                   m2 = startBatch E target subBatch (execTime targetData1) m1
               in Inr (((Some subBatch, execTime targetData1), times1),
                       targetData1\<lparr>execTime := execTime targetData1 + minDeltaBatchExec (st E)\<rparr>,
                       m2))
            else Inr ((subBatchData, times1), targetData1, m1)))))"

text \<open>The loop of \<open>scheduleFullShotgun\<close>, run a given number of times.\<close>

fun fullShotgunLoop ::
  "nat \<Rightarrow> env \<Rightarrow> server \<Rightarrow> targetData \<Rightarrow> machine \<Rightarrow> targetData \<times> machine" where
  "fullShotgunLoop 0 E target targetData m = (targetData, m)"
| "fullShotgunLoop (Suc n) E target targetData m =
     fullShotgunLoop n E target
       (targetData\<lparr>execTime := execTime targetData + minDeltaBatchExec (st E)\<rparr>)
       (startBatch E target (batch targetData) (execTime targetData) m)"

definition scheduleFullShotgun ::
  "env \<Rightarrow> server \<Rightarrow> targetData \<Rightarrow> machine \<Rightarrow> abort + (targetData \<times> machine)" where
  "scheduleFullShotgun E target targetData m =
     bindE (getMaxBatchesForTime E (execTime targetData)) (\<lambda>maxBatchesForTime.
     bindE (js_div (getAvailableHsbRam E (ns m)) (ramUsage (cost E) (batch targetData))) (\<lambda>q.
       let maxBatchesForRam = of_int \<lfloor>q\<rfloor>;
           maxBatches = min maxBatchesForTime maxBatchesForRam
       in Inr (fullShotgunLoop (forCount maxBatches) E target targetData m)))"

section \<open>HsbTargeter: the main loop\<close>

text \<open>
  The variables of \<open>multiServerHSb\<close>, with the machine. \<open>subBatchData\<close> is
  the pair of a batch (or null) and its execution time.
\<close>

record hsb =
  targetsData :: targetsData
  subShotgunTarget :: "server option"
  subShotgunBatchExecTimes :: "real list"
  subShotgunMaxRam :: real
  subBatchData :: "Threads option \<times> real"
  mach :: machine

definition initialHsb :: "env \<Rightarrow> machine \<Rightarrow> hsb" where
  "initialHsb E m =
     \<lparr>targetsData = getTargetsData E (ns m),
      subShotgunTarget = None,
      subShotgunBatchExecTimes = [],
      subShotgunMaxRam = 0,
      subBatchData = (None, 0),
      mach = m\<rparr>"

text \<open>
  The head of an iteration of the \<open>while (true)\<close>, up to the await: the priority
  is computed, \<open>subShotgunMaxRam\<close> is assigned, and the sub shotgun target is
  compared with the new one.
\<close>

definition beginCycle :: "env \<Rightarrow> hsb \<Rightarrow> abort + (server list \<times> hsb)" where
  "beginCycle E s =
     bindE (getTargetPriority E (ns (mach s)) (targetsData s))
       (\<lambda>(targetPriority, (newSubShotgunTarget, newMaxRam)).
          let s1 = s\<lparr>subShotgunMaxRam := newMaxRam\<rparr>
          in if newSubShotgunTarget \<noteq> subShotgunTarget s1 then
               Inr (targetPriority,
                    s1\<lparr>subShotgunTarget := newSubShotgunTarget, subShotgunBatchExecTimes := []\<rparr>)
             else Inr (targetPriority, s1))"

text \<open>The body of \<open>for (const target of targetPriority)\<close>.\<close>

definition forTarget :: "nat \<Rightarrow> env \<Rightarrow> server \<Rightarrow> hsb \<Rightarrow> abort + hsb" where
  "forTarget fuel E target s =
     (case map_of (targetsData s) target of
        None \<Rightarrow> Inl TypeError
      | Some targetData \<Rightarrow>
          (case ensureValidExecTime fuel E (ns (mach s)) target targetData of
             (None, targetData1) \<Rightarrow> Inl OutOfFuel
           | (Some False, targetData1) \<Rightarrow>
               Inr (s\<lparr>targetsData := AList.update target targetData1 (targetsData s)\<rparr>)
           | (Some True, targetData1) \<Rightarrow>
               (case ensureFixed E target targetData1 (mach s) of
                  (False, targetData2, m2) \<Rightarrow>
                    Inr (s\<lparr>targetsData := AList.update target targetData2 (targetsData s),
                           mach := m2\<rparr>)
                | (True, targetData2, m2) \<Rightarrow>
                    bindE (targetFixValid (ns m2) target targetData2) (\<lambda>valid.
                      if subShotgunTarget s = Some target then
                        bindE (scheduleSubShotgun E target targetData2
                                 (subShotgunBatchExecTimes s) (subShotgunMaxRam s)
                                 (subBatchData s) m2)
                          (\<lambda>((newSubBatchData, newTimes), targetData3, m3).
                             Inr (s\<lparr>targetsData := AList.update target targetData3 (targetsData s),
                                    subBatchData := newSubBatchData,
                                    subShotgunBatchExecTimes := newTimes,
                                    mach := m3\<rparr>))
                      else
                        bindE (scheduleFullShotgun E target targetData2 m2)
                          (\<lambda>(targetData3, m3).
                             Inr (s\<lparr>targetsData := AList.update target targetData3 (targetsData s),
                                    mach := m3\<rparr>))))))"

fun forTargets :: "nat \<Rightarrow> env \<Rightarrow> server list \<Rightarrow> hsb \<Rightarrow> abort + hsb" where
  "forTargets fuel E [] s = Inr s"
| "forTargets fuel E (target # rest) s =
     bindE (forTarget fuel E target s) (forTargets fuel E rest)"

text \<open>\<open>await goToNextSecHole(ns)\<close>: the world moves on, the variables stay.\<close>

definition awaitNextSecHole :: "env \<Rightarrow> hsb \<Rightarrow> hsb" where
  "awaitNextSecHole E s = s\<lparr>mach := (mach s)\<lparr>ns := goToNextSecHole (fx E) (ns (mach s))\<rparr>\<rparr>"

text \<open>One iteration of the \<open>while (true)\<close> of \<open>multiServerHSb\<close>.\<close>

definition cycle :: "nat \<Rightarrow> env \<Rightarrow> hsb \<Rightarrow> abort + hsb" where
  "cycle fuel E s =
     bindE (beginCycle E s) (\<lambda>(targetPriority, s1).
       forTargets fuel E targetPriority (awaitNextSecHole E s1))"

text \<open>
  The loop never returns: after the given number of iterations the model hands back the
  state reached, unless an iteration has stopped the run before.
\<close>

fun cycles :: "nat \<Rightarrow> nat \<Rightarrow> env \<Rightarrow> hsb \<Rightarrow> abort + hsb" where
  "cycles 0 fuel E s = Inr s"
| "cycles (Suc n) fuel E s = bindE (cycle fuel E s) (cycles n fuel E)"

definition multiServerHSb :: "nat \<Rightarrow> nat \<Rightarrow> env \<Rightarrow> machine \<Rightarrow> abort + hsb" where
  "multiServerHSb n fuel E m = cycles n fuel E (initialHsb E m)"

text \<open>\<open>main\<close> awaits \<open>multiServerHSb\<close> (the logging it switches off is not modelled).\<close>

definition main_HsbTargeter :: "nat \<Rightarrow> nat \<Rightarrow> env \<Rightarrow> machine \<Rightarrow> abort + hsb" where
  "main_HsbTargeter n fuel E m = multiServerHSb n fuel E m"

section \<open>SetupServer\<close>

definition portOpenerFiles :: "string list" where
  "portOpenerFiles =
     [''BruteSSH.exe'', ''FTPCrack.exe'', ''relaySMTP.exe'', ''HTTPWorm.exe'', ''SQLInject.exe'']"

definition getRoot :: "env \<Rightarrow> server \<Rightarrow> machine \<Rightarrow> bool \<times> machine" where
  "getRoot E target m =
     (if hasRootAccess (ns m) target then (True, m)
      else
        (let homePrograms = ls (ns m) ''home'';
             portOpeners = filter (\<lambda>file_name. file_name \<in> set homePrograms) portOpenerFiles;
             portsReq = getServerNumPortsRequired (ns m) target
         in if length portOpeners < portsReq then (False, m)
            else
              (let w1 = foldl (\<lambda>w opener. portOpened (fx E) opener target w) (ns m)
                          (take portsReq portOpeners)
               in (True, m\<lparr>ns := nuked (fx E) target w1\<rparr>))))"

text \<open>The calls of \<open>ns.print\<close> are not modelled.\<close>

definition fixSecurity ::
  "env \<Rightarrow> server \<Rightarrow> server list \<Rightarrow> real \<Rightarrow> machine \<Rightarrow> abort + (bool \<times> machine)" where
  "fixSecurity E target servers availableRam m =
     (if availableRam = 0 then Inr (False, m)
      else
        (let fromMin = getServerSecurityLevel (ns m) target - getServerMinSecurityLevel (ns m) target
         in if fromMin \<noteq> 0 then
              bindE (js_div fromMin (weakenAnalyze (ns m) 1)) (\<lambda>q.
              let optimalWeakenThreads = \<lceil>q\<rceil>
              in bindE (js_div availableRam (weakenRam (cost E))) (\<lambda>q'.
              let maxWeakenThreads = \<lfloor>q'\<rfloor>;
                  weakenThreads = min optimalWeakenThreads maxWeakenThreads;
                  threads = \<lparr>hack = 0, grow = 0, weaken = weakenThreads\<rparr>;
                  m1 = startThreads E target threads servers m;
                  optimal = (optimalWeakenThreads \<le> maxWeakenThreads)
              in if \<not> optimal then Inr (False, sleep E (getWeakenTime (ns m1) target) m1)
                 else Inr (True, sleep E 10 m1)))
            else Inr (True, m)))"

text \<open>
  \<open>growPToRam\<close> sets the grow and weaken counts of \<open>threads\<close> for a growth
  factor \<open>x\<close>; what it returns to the search is the RAM of the result. It divides by
  \<open>ns.weakenAnalyze(1)\<close>: \<open>fixMoney\<close> below stops with
  \<open>NonFinite\<close> before the search when that is zero, since the cost function has no
  finite value then.
\<close>

definition growPToRam :: "world \<Rightarrow> server \<Rightarrow> Threads \<Rightarrow> real \<Rightarrow> Threads" where
  "growPToRam w target threads x =
     (let g = \<lceil>growthAnalyze w target x\<rceil>;
          secInc = growthAnalyzeSecurity w (of_int g)
      in threads\<lparr>grow := g, weaken := \<lceil>secInc / weakenAnalyze w 1\<rceil>\<rparr>)"

text \<open>
  \<open>let threads = new Threads()\<close> and then
  \<open>estimateX(ns, growPToRam, availableRam, 1, maxMul, 0, 0.1)\<close>: what
  \<open>threads\<close> holds after the search has called \<open>growPToRam\<close> at its
  trial points (the result of \<open>estimateX\<close> itself is dropped).
\<close>

definition searchedThreads :: "env \<Rightarrow> world \<Rightarrow> server \<Rightarrow> real \<Rightarrow> real \<Rightarrow> Threads" where
  "searchedThreads E w target availableRam maxMul =
     foldl (growPToRam w target) \<lparr>hack = 0, grow = 0, weaken = 0\<rparr>
       (estimateX (lb E)
          (\<lambda>x. ramUsage (cost E) (growPToRam w target \<lparr>hack = 0, grow = 0, weaken = 0\<rparr> x))
          availableRam 1 maxMul)"

definition fixMoney ::
  "env \<Rightarrow> server \<Rightarrow> server list \<Rightarrow> real \<Rightarrow> machine \<Rightarrow> abort + (bool \<times> machine)" where
  "fixMoney E target servers availableRam m =
     (if availableRam = 0 then Inr (False, m)
      else
        (let serverMoney = getServerMoneyAvailable (ns m) target;
             maxServerMoney = getServerMaxMoney (ns m) target
         in if serverMoney \<noteq> maxServerMoney then
              bindE (js_div (getServerMoneyAvailable (ns m) target) (getServerMaxMoney (ns m) target))
                (\<lambda>moneyLeftP.
              bindE (js_div 1 moneyLeftP) (\<lambda>maxMul.
              if weakenAnalyze (ns m) 1 = 0 then Inl NonFinite
              else
                (let threads = searchedThreads E (ns m) target availableRam maxMul;
                     delta = growthAnalyze (ns m) target maxMul + 1 - of_int (grow threads);
                     m1 = startThreads E target threads servers m
                 in if delta < 1 / 2 then Inr (True, sleep E 10 m1)
                    else Inr (False, sleep E (getWeakenTime (ns m1) target + WGHMargin (st E) + 5) m1))))
            else Inr (True, m)))"

text \<open>
  The body of the \<open>while (true)\<close> of \<open>fixServer\<close>: the flag says whether the
  loop is left (\<open>break\<close>) or started again (\<open>continue\<close>).
\<close>

definition fixServerBody ::
  "env \<Rightarrow> server \<Rightarrow> server list \<Rightarrow> machine \<Rightarrow> abort + (bool \<times> machine)" where
  "fixServerBody E target servers m =
     (let m1 = sleep E 100 m;
          avalibleRam = getAvailableRam (lb E) (ns m1) servers
      in bindE (fixSecurity E target servers avalibleRam m1) (\<lambda>(securityFixed, m2).
           if \<not> securityFixed then Inr (False, m2)
           else
             (let avalibleRam2 = getAvailableRam (lb E) (ns m2) servers
              in bindE (fixMoney E target servers avalibleRam2 m2) (\<lambda>(moneyFixed, m3).
                   if \<not> moneyFixed then Inr (False, m3) else Inr (True, m3)))))"

fun fixServerLoop :: "nat \<Rightarrow> env \<Rightarrow> server \<Rightarrow> server list \<Rightarrow> machine \<Rightarrow> abort + machine" where
  "fixServerLoop 0 E target servers m = Inl OutOfFuel"
| "fixServerLoop (Suc fuel) E target servers m =
     bindE (fixServerBody E target servers m) (\<lambda>(finished, m1).
       if finished then Inr m1 else fixServerLoop fuel E target servers m1)"

definition fixServer :: "nat \<Rightarrow> env \<Rightarrow> server \<Rightarrow> machine \<Rightarrow> abort + machine" where
  "fixServer fuel E target m =
     (let (rooted, m0) = getRoot E target m;
          servers = getServers (lb E) (ns m0)
      in fixServerLoop fuel E target servers m0)"

text \<open>\<open>main\<close> of SetupServer hands its first argument to \<open>getRoot\<close>.\<close>

definition main_SetupServer :: "env \<Rightarrow> server \<Rightarrow> machine \<Rightarrow> bool \<times> machine" where
  "main_SetupServer E serverName m = getRoot E serverName m"

section \<open>Quantities the statements speak of\<close>

text \<open>
  The RAM footprint of a key of \<open>targetsData\<close>, as the second loop of
  \<open>getTargetPriority\<close> computes it, and the pair the first loop pushes for an entry.
\<close>

definition footprint :: "env \<Rightarrow> world \<Rightarrow> targetsData \<Rightarrow> server \<Rightarrow> real" where
  "footprint E w tds target =
     (case map_of tds target of
        None \<Rightarrow> 0
      | Some targetData \<Rightarrow> (case maxRam E w targetData target of Inl e \<Rightarrow> 0 | Inr m \<Rightarrow> m))"

definition moneyPerMsPerRam :: "env \<Rightarrow> world \<Rightarrow> server \<times> targetData \<Rightarrow> server \<times> real" where
  "moneyPerMsPerRam E w = (\<lambda>(target, targetData).
     (target, getMoneyPerMs (lb E) w target (batch targetData) / ramUsage (cost E) (batch targetData)))"


text \<open>Every target of a list fits in the budget that is left when the walk reaches it.\<close>

definition fits :: "(server \<Rightarrow> real) \<Rightarrow> real \<Rightarrow> server list \<Rightarrow> bool" where
  "fits fp a xs \<longleftrightarrow> (\<forall>p x q. xs = p @ x # q \<longrightarrow> fp x \<le> a - sum_list (map fp p))"


text \<open>
  The batches \<open>bs\<close> were started one after the other from the record \<open>td\<close>
  and the machine \<open>m\<close>: each at the execution time the record held then, which
  grew by \<open>minDeltaBatchExec\<close> with every start.
\<close>

definition dispatched ::
  "env \<Rightarrow> server \<Rightarrow> Threads list \<Rightarrow> targetData \<Rightarrow> machine \<Rightarrow> targetData \<Rightarrow> machine \<Rightarrow> bool" where
  "dispatched E target bs td m td' m' \<longleftrightarrow>
     started m' = started m @
       map (\<lambda>(i, b). StartBatch target b (execTime td + real i * minDeltaBatchExec (st E)))
         (List.enumerate 0 bs) \<and>
     execTime td' = execTime td + real (length bs) * minDeltaBatchExec (st E)"

text \<open>No key is lost and no execution time is lower in the second object than in the first.\<close>

definition advanced :: "targetsData \<Rightarrow> targetsData \<Rightarrow> bool" where
  "advanced tds tds' \<longleftrightarrow>
     (\<forall>x td. map_of tds x = Some td \<longrightarrow>
        (\<exists>td'. map_of tds' x = Some td' \<and> execTime td \<le> execTime td'))"


text \<open>The execution time collides with a security hole (the second test of the loop).\<close>

definition collides :: "env \<Rightarrow> real \<Rightarrow> bool" where
  "collides E t \<longleftrightarrow>
     inLowSecHole (lb E) t \<or> inLowSecHole (lb E) (t - minDeltaBatchExec (st E)) \<or>
     getNextSecHole (lb E) (t - minDeltaBatchExec (st E)) < t"


section \<open>Example inputs\<close>

text \<open>
  Settings, a cost table, the missing library and a world in which the statements below
  are evaluated: security holes of 100 ms every 1000 ms, four servers of which two hold
  money, and a fix that needs 1000 weaken threads where the free RAM pays for 285.
\<close>

definition S0 :: settings where
  "S0 = \<lparr>averageBatchASec = 1000, execMargin = 200, maxShotgunShells = 2,
          minDeltaBatchExec = 50, WGHMargin = 10\<rparr>"

definition R0 :: RamUsage where
  "R0 = \<lparr>hackRam = 17 / 10, growRam = 7 / 4, weakenRam = 7 / 4\<rparr>"

definition hwgw :: Threads where
  "hwgw = \<lparr>hack = 1, grow = 1, weaken = 2\<rparr>"

definition L0 :: lib where
  "L0 = \<lparr>getServers = (\<lambda>w. [''home'', ''n00dles'', ''foodnstuff'', ''pserv-0'']),
          getMoneyPerMs =
            (\<lambda>w t b. if t = ''n00dles'' then 139 / 4 else if t = ''foodnstuff'' then 417 / 20 else 0),
          getBestFixBatch = (\<lambda>w t r. \<lparr>hack = 0, grow = 0, weaken = min 1000 \<lfloor>r / (7 / 4)\<rfloor>\<rparr>),
          getOptimalFixBatch = (\<lambda>w t. \<lparr>hack = 0, grow = 0, weaken = 1000\<rparr>),
          getBestMoneyBatch = (\<lambda>w t r. \<lparr>hack = 0, grow = 0, weaken = \<lfloor>r / (7 / 4)\<rfloor>\<rparr>),
          getOptimalMoneyBatch = (\<lambda>w t. hwgw),
          getMinSecWeakenTime = (\<lambda>w t. 3000),
          inLowSecHole = (\<lambda>t. t - 1000 * of_int \<lfloor>t / 1000\<rfloor> < 100),
          getNextLowSecEnd = (\<lambda>t. 1000 * of_int \<lceil>(t - 100) / 1000\<rceil> + 100),
          getNextSecHole = (\<lambda>t. 1000 * (of_int \<lfloor>t / 1000\<rfloor> + 1)),
          getAvailableRam = (\<lambda>w s. 100),
          estimateX = (\<lambda>f y lo hi. [hi])\<rparr>"

definition F0 :: effects where
  "F0 = \<lparr>batchStarted = (\<lambda>t b x w. w),
          threadsStarted = (\<lambda>t b s w. w),
          goToNextSecHole = (\<lambda>w. w\<lparr>dateNow := 1000 * (of_int \<lfloor>dateNow w / 1000\<rfloor> + 1) + 50\<rparr>),
          slept = (\<lambda>ms w. w\<lparr>dateNow := dateNow w + ms\<rparr>),
          portOpened = (\<lambda>p t w. w),
          nuked = (\<lambda>t w. w\<lparr>hasRootAccess := (hasRootAccess w)(t := True)\<rparr>)\<rparr>"

definition E0 :: env where
  "E0 = \<lparr>st = S0, cost = R0, lb = L0, fx = F0\<rparr>"

definition w0 :: world where
  "w0 = \<lparr>dateNow = 1000050, getHostname = ''home'',
     hasRootAccess = (\<lambda>s. True),
     getServerMaxRam =
       (\<lambda>s. if s = ''home'' then 64 else if s = ''n00dles'' then 4
            else if s = ''foodnstuff'' then 16 else 512),
     getScriptRam = (\<lambda>f. 7 / 4),
     ps = (\<lambda>s. []),
     getServerSecurityLevel = (\<lambda>s. 10),
     getServerMinSecurityLevel = (\<lambda>s. 5),
     getServerMoneyAvailable = (\<lambda>s. 500),
     getServerMaxMoney = (\<lambda>s. if s = ''n00dles'' \<or> s = ''foodnstuff'' then 1000 else 0),
     getServerRequiredHackingLevel = (\<lambda>s. 1),
     getHackingLevel = 10,
     getWeakenTime = (\<lambda>s. 3000),
     baseDifficulty = (\<lambda>s. 15),
     weakenAnalyze = (\<lambda>n. n / 20),
     growthAnalyze = (\<lambda>s x. x * 107 / 20),
     growthAnalyzeSecurity = (\<lambda>n. n / 250),
     ls = (\<lambda>s. []),
     getServerNumPortsRequired = (\<lambda>s. 0)\<rparr>"

definition m0 :: machine where
  "m0 = \<lparr>ns = w0, started = []\<rparr>"

definition td0 :: targetData where
  "td0 = \<lparr>execTime = 1003150, fixedStatus = Deadline 0, batch = hwgw,
          baseSecurity = 10, baseMoney = 500\<rparr>"

definition tds0 :: targetsData where
  "tds0 = [(''n00dles'', td0), (''foodnstuff'', td0)]"

definition noRoot :: world where
  "noRoot = w0\<lparr>hasRootAccess := (\<lambda>s. s \<noteq> ''foodnstuff'')\<rparr>"

definition sameLevel :: world where
  "sameLevel = w0\<lparr>getServerRequiredHackingLevel := (\<lambda>s. 10)\<rparr>"

text \<open>A state of the main loop in which ''n00dles'' was the sub shotgun target and a remainder batch is due at 1002250.\<close>

definition s9 :: hsb where
  "s9 = \<lparr>targetsData = tds0,
          subShotgunTarget = Some ''n00dles'',
          subShotgunBatchExecTimes = [1002150, 1002200],
          subShotgunMaxRam = 20,
          subBatchData = (Some \<lparr>hack = 0, grow = 0, weaken = 3\<rparr>, 1002250),
          mach = m0\<rparr>"

text \<open>
  A state of the main loop in which ''n00dles'' counts as fixed with the baseline 5 and
  1000, while the world shows a security of 10 and 500 of money.
\<close>

definition tdFixed :: targetData where
  "tdFixed = \<lparr>execTime = 1000050, fixedStatus = Fixed, batch = hwgw,
              baseSecurity = 5, baseMoney = 1000\<rparr>"

definition s5 :: hsb where
  "s5 = \<lparr>targetsData = [(''n00dles'', tdFixed)],
          subShotgunTarget = None,
          subShotgunBatchExecTimes = [],
          subShotgunMaxRam = 0,
          subBatchData = (None, 0),
          mach = m0\<rparr>"

text \<open>The example machine in a world where the growth needed is a whole number of threads.\<close>

definition wholeGrowth :: machine where
  "wholeGrowth = m0\<lparr>ns := w0\<lparr>growthAnalyze := (\<lambda>s x. x * 5)\<rparr>\<rparr>"

section \<open>Basic facts\<close>

lemma bindE_Inr [simp]: "bindE (Inr x) f = f x"
  by (simp add: bindE_def)

lemma bindE_Inl [simp]: "bindE (Inl e) f = Inl e"
  by (simp add: bindE_def)

lemma js_div_nonzero: "b \<noteq> 0 \<Longrightarrow> js_div a b = Inr (a / b)"
  by (simp add: js_div_def)

lemma targetInfo_total:
  "\<forall>(t, td) \<in> set tds. ramUsage (cost E) (batch td) \<noteq> 0 \<Longrightarrow>
   targetInfo E w tds = Inr (map (moneyPerMsPerRam E w) tds)"
  by (induction tds) (auto simp: js_div_nonzero moneyPerMsPerRam_def Let_def)

lemma maxRam_footprint:
  "execMargin (st E) \<noteq> 0 \<Longrightarrow> map_of tds t = Some td \<Longrightarrow>
   maxRam E w td t = Inr (footprint E w tds t)"
  by (simp add: maxRam_def footprint_def js_div_nonzero Let_def)


lemmas example_defs =
  E0_def S0_def R0_def L0_def F0_def w0_def m0_def td0_def hwgw_def

lemmas capacity_defs =
  getAvailableHsbRam_def getAvailableWGHServers_def getServerAvailableHsbRam_def
  getServerHsbUsedRam_def hostRamMargin_def

lemma example_capacity: "getAvailableHsbRam E0 w0 = 2497 / 5"
  by (simp add: example_defs capacity_defs)

lemma example_priority:
  "getTargetPriority E0 w0 tds0 =
     Inr ([''n00dles'', ''foodnstuff''], (Some ''foodnstuff'', 1107 / 5))"
  by code_simp

section \<open>The fix status after a partial fix batch\<close>

text \<open>
  Claim C1 says that \<open>ensureFixed\<close>, at a numeric deadline that has passed and with a
  fix batch that is not the optimal one, stores a new deadline equal to the execution time
  of that batch. The code compares instead of assigning. In the example the deadline is 0,
  the clock is at 1000050, the batch for the free RAM has 285 weaken threads where the
  optimal one has 1000, and the batch is started for 1003150: the status afterwards is
  still the deadline 0, not the deadline 1003150.
\<close>

theorem ensureFixed_keeps_old_deadline:
  "dateNow (ns m0) = 1000050 \<and> fixedStatus td0 = Deadline 0 \<and> execTime td0 = 1003150 \<and>
   \<not> targetFixed (ns m0) ''n00dles'' \<and>
   \<not> equal_threads (getBestFixBatch (lb E0) (ns m0) ''n00dles'' (getAvailableHsbRam E0 (ns m0)))
                   (getOptimalFixBatch (lb E0) (ns m0) ''n00dles'') \<and>
   ensureFixed E0 ''n00dles'' td0 m0 =
     (False,
      td0\<lparr>execTime := 1003200\<rparr>,
      startBatch E0 ''n00dles'' \<lparr>hack = 0, grow = 0, weaken = 285\<rparr> 1003150 m0) \<and>
   fixedStatus (td0\<lparr>execTime := 1003200\<rparr>) = Deadline 0 \<and>
   fixedStatus (td0\<lparr>execTime := 1003200\<rparr>) \<noteq> Deadline 1003150"
proof -
  have cap: "getAvailableHsbRam E0 (ns m0) = 2497 / 5"
    using example_capacity by (simp add: m0_def)
  show ?thesis
    unfolding ensureFixed_def cap
    by (simp add: example_defs targetFixed_def equal_threads_def startBatch_def Let_def)
qed

section \<open>The priority walk\<close>

lemma fits_Nil [simp]: "fits fp a []"
  by (simp add: fits_def)

lemma fits_Cons: "fp x \<le> a \<Longrightarrow> fits fp (a - fp x) xs \<Longrightarrow> fits fp a (x # xs)"
  unfolding fits_def
proof (intro allI impI)
  fix p y q
  assume h: "fp x \<le> a" "\<forall>p y q. xs = p @ y # q \<longrightarrow> fp y \<le> a - fp x - sum_list (map fp p)"
    and e: "x # xs = p @ y # q"
  show "fp y \<le> a - sum_list (map fp p)"
  proof (cases p)
    case Nil
    with e h show ?thesis by simp
  next
    case (Cons z p')
    with e have "z = x" and xs: "xs = p' @ y # q" by simp_all
    from h(2) xs have "fp y \<le> a - fp x - sum_list (map fp p')" by blast
    with Cons \<open>z = x\<close> show ?thesis by simp
  qed
qed

lemma priorityLoop_spec:
  assumes ex: "execMargin (st E) \<noteq> 0"
  shows "set ts \<subseteq> fst ` set tds \<Longrightarrow>
    \<exists>prio ov ceil. priorityLoop E w tds ts acc a = Inr (prio, (ov, ceil)) \<and>
      (case ov of
         Some t \<Rightarrow> \<exists>pre post. filter (\<lambda>t. \<not> ensureCanHack w t) ts = pre @ t # post \<and>
             prio = acc @ pre @ [t] \<and> ceil = a - sum_list (map (footprint E w tds) pre) \<and>
             footprint E w tds t > ceil \<and> fits (footprint E w tds) a pre
       | None \<Rightarrow> prio = acc @ filter (\<lambda>t. \<not> ensureCanHack w t) ts \<and> ceil = 0 \<and>
             fits (footprint E w tds) a (filter (\<lambda>t. \<not> ensureCanHack w t) ts))"
proof (induction ts arbitrary: acc a)
  case Nil
  then show ?case by simp
next
  case (Cons target rest)
  let ?fp = "footprint E w tds"
  let ?keep = "\<lambda>t. \<not> ensureCanHack w t"
  from Cons.prems have sub: "set rest \<subseteq> fst ` set tds" and mem: "target \<in> fst ` set tds"
    by auto
  show ?case
  proof (cases "ensureCanHack w target")
    case True
    with Cons.IH [OF sub, of acc a] show ?thesis by (simp cong: option.case_cong)
  next
    case False
    from mem obtain td where td: "map_of tds target = Some td"
      by (metis domIff dom_map_of_conv_image_fst not_Some_eq)
    note mr = maxRam_footprint [OF ex td, of w]
    show ?thesis
    proof (cases "?fp target > a")
      case True
      have run: "priorityLoop E w tds (target # rest) acc a = Inr (acc @ [target], (Some target, a))"
        using False td mr True by simp
      have "filter ?keep (target # rest) = [] @ target # filter ?keep rest"
        using False by simp
      then have "\<exists>pre post. filter ?keep (target # rest) = pre @ target # post \<and>
             acc @ [target] = acc @ pre @ [target] \<and> a = a - sum_list (map ?fp pre) \<and>
             ?fp target > a \<and> fits ?fp a pre"
        using True by (intro exI [of _ "[]"] exI [of _ "filter ?keep rest"]) simp
      with run show ?thesis by simp
    next
      case fit: False
      have step: "priorityLoop E w tds (target # rest) acc a =
                  priorityLoop E w tds rest (acc @ [target]) (a - ?fp target)"
        using False td mr fit by simp
      from Cons.IH [OF sub, of "acc @ [target]" "a - ?fp target"]
      obtain prio ov ceil where
        r: "priorityLoop E w tds rest (acc @ [target]) (a - ?fp target) = Inr (prio, (ov, ceil))"
        and c: "(case ov of
           Some t \<Rightarrow> \<exists>pre post. filter ?keep rest = pre @ t # post \<and>
             prio = (acc @ [target]) @ pre @ [t] \<and> ceil = (a - ?fp target) - sum_list (map ?fp pre) \<and>
             ?fp t > ceil \<and> fits ?fp (a - ?fp target) pre
         | None \<Rightarrow> prio = (acc @ [target]) @ filter ?keep rest \<and> ceil = 0 \<and>
             fits ?fp (a - ?fp target) (filter ?keep rest))"
        by blast
      have le: "?fp target \<le> a" using fit by simp
      show ?thesis
      proof (cases ov)
        case None
        with c le False have "prio = acc @ filter ?keep (target # rest)" "ceil = 0"
          "fits ?fp a (filter ?keep (target # rest))"
          by (simp_all add: fits_Cons)
        with step r None show ?thesis by simp
      next
        case (Some t)
        with c obtain pre post where
          p: "filter ?keep rest = pre @ t # post" "prio = (acc @ [target]) @ pre @ [t]"
             "ceil = (a - ?fp target) - sum_list (map ?fp pre)" "?fp t > ceil"
             "fits ?fp (a - ?fp target) pre"
          by auto
        have "filter ?keep (target # rest) = (target # pre) @ t # post"
          using False p(1) by simp
        moreover have "prio = acc @ (target # pre) @ [t]" using p(2) by simp
        moreover have "ceil = a - sum_list (map ?fp (target # pre))" using p(3) by simp
        moreover have "fits ?fp a (target # pre)" using le p(5) by (rule fits_Cons)
        ultimately have "\<exists>pre post. filter ?keep (target # rest) = pre @ t # post \<and>
             prio = acc @ pre @ [t] \<and> ceil = a - sum_list (map ?fp pre) \<and>
             ?fp t > ceil \<and> fits ?fp a pre"
          using p(4) by blast
        with step r Some show ?thesis by simp
      qed
    qed
  qed
qed


lemma sortDescending_mset: "mset (sortDescending info) = mset info"
  by (simp add: sortDescending_def)

lemma sortDescending_sorted: "sorted_wrt (\<lambda>a b. snd a \<ge> snd b) (sortDescending info)"
proof -
  have "sorted (map (\<lambda>(target, r). - r) (sortDescending info))"
    unfolding sortDescending_def by (rule sorted_sort_key)
  then have "sorted_wrt (\<lambda>a b. (case a of (target, r) \<Rightarrow> - r) \<le> (case b of (target, r) \<Rightarrow> - r))
               (sortDescending info)"
    by (simp add: sorted_map)
  then show ?thesis
    by (rule sorted_wrt_mono_rel [rotated]) (auto split: prod.splits)
qed

lemma fst_moneyPerMsPerRam: "map fst (map (moneyPerMsPerRam E w) tds) = map fst tds"
  by (induction tds) (auto simp: moneyPerMsPerRam_def)

lemma walk_keys:
  "mset (map fst (sortDescending (map (moneyPerMsPerRam E w) tds))) = mset (map fst tds)"
proof -
  have "mset (map fst (sortDescending (map (moneyPerMsPerRam E w) tds))) =
        image_mset fst (mset (sortDescending (map (moneyPerMsPerRam E w) tds)))"
    by (simp only: mset_map)
  also have "\<dots> = image_mset fst (mset (map (moneyPerMsPerRam E w) tds))"
    by (simp only: sortDescending_mset)
  also have "\<dots> = mset (map fst (map (moneyPerMsPerRam E w) tds))"
    by (simp only: mset_map)
  finally show ?thesis by (simp only: fst_moneyPerMsPerRam)
qed


text \<open>
  Claim C2: \<open>getTargetPriority\<close> walks the targets in descending order of money per
  ms per RAM (the walk is a permutation of the entries, sorted by that ratio) with a budget
  that starts at the available RAM. It returns: as overflow target the first retained
  target \<open>t\<close> whose footprint exceeds what is left of the budget when the walk
  reaches it, with exactly that remainder (the budget less the footprints of the retained
  targets \<open>pre\<close> before it, each of which fitted); as priority list \<open>pre\<close> and
  \<open>t\<close>, so that \<open>pre\<close> does not hold the overflow target and nothing after
  \<open>t\<close> is listed; and when every retained target fits, all of them, no overflow
  target and the ceiling 0. It does return, when \<open>execMargin\<close> is not zero and no
  batch has a zero cost (the keys of an object are distinct).
\<close>

theorem getTargetPriority_overflow:
  assumes ex: "execMargin (st E) \<noteq> 0"
    and ru: "\<forall>(t, td) \<in> set tds. ramUsage (cost E) (batch td) \<noteq> 0"
    and dist: "distinct (map fst tds)"
  shows "mset (sortDescending (map (moneyPerMsPerRam E w) tds)) = mset (map (moneyPerMsPerRam E w) tds) \<and>
     sorted_wrt (\<lambda>a b. snd a \<ge> snd b) (sortDescending (map (moneyPerMsPerRam E w) tds)) \<and>
     (\<exists>prio ov ceil.
        getTargetPriority E w tds = Inr (prio, (ov, ceil)) \<and>
        (case ov of
           Some t \<Rightarrow>
             \<exists>pre post.
               filter (\<lambda>t. \<not> ensureCanHack w t)
                 (map fst (sortDescending (map (moneyPerMsPerRam E w) tds))) = pre @ t # post \<and>
               prio = pre @ [t] \<and> t \<notin> set pre \<and>
               ceil = getAvailableHsbRam E w - sum_list (map (footprint E w tds) pre) \<and>
               footprint E w tds t > ceil \<and>
               (\<forall>p x q. pre = p @ x # q \<longrightarrow>
                  footprint E w tds x \<le> getAvailableHsbRam E w - sum_list (map (footprint E w tds) p))
         | None \<Rightarrow>
             prio = filter (\<lambda>t. \<not> ensureCanHack w t)
                      (map fst (sortDescending (map (moneyPerMsPerRam E w) tds))) \<and>
             ceil = 0 \<and>
             (\<forall>p x q. prio = p @ x # q \<longrightarrow>
                footprint E w tds x \<le> getAvailableHsbRam E w - sum_list (map (footprint E w tds) p))))"
proof -
  let ?walk = "map fst (sortDescending (map (moneyPerMsPerRam E w) tds))"
  let ?keep = "\<lambda>t. \<not> ensureCanHack w t"
  let ?fp = "footprint E w tds"
  let ?total = "getAvailableHsbRam E w"
  have keys: "mset ?walk = mset (map fst tds)" by (rule walk_keys)
  then have "set ?walk = set (map fst tds)" by (rule mset_eq_setD)
  then have sub: "set ?walk \<subseteq> fst ` set tds" by simp
  have "distinct ?walk" using keys dist by (metis mset_eq_imp_distinct_iff)
  then have dk: "distinct (filter ?keep ?walk)" by simp
  have run: "getTargetPriority E w tds = priorityLoop E w tds ?walk [] ?total"
    by (simp add: getTargetPriority_def targetInfo_total [OF ru])
  from priorityLoop_spec [OF ex sub, of w "[]" ?total]
  obtain prio ov ceil where
    r: "priorityLoop E w tds ?walk [] ?total = Inr (prio, (ov, ceil))"
    and c: "(case ov of
         Some t \<Rightarrow> \<exists>pre post. filter ?keep ?walk = pre @ t # post \<and>
             prio = [] @ pre @ [t] \<and> ceil = ?total - sum_list (map ?fp pre) \<and>
             ?fp t > ceil \<and> fits ?fp ?total pre
       | None \<Rightarrow> prio = [] @ filter ?keep ?walk \<and> ceil = 0 \<and> fits ?fp ?total (filter ?keep ?walk))"
    by blast
  have "(case ov of
           Some t \<Rightarrow>
             \<exists>pre post.
               filter ?keep ?walk = pre @ t # post \<and>
               prio = pre @ [t] \<and> t \<notin> set pre \<and>
               ceil = ?total - sum_list (map ?fp pre) \<and> ?fp t > ceil \<and>
               (\<forall>p x q. pre = p @ x # q \<longrightarrow> ?fp x \<le> ?total - sum_list (map ?fp p))
         | None \<Rightarrow>
             prio = filter ?keep ?walk \<and> ceil = 0 \<and>
             (\<forall>p x q. prio = p @ x # q \<longrightarrow> ?fp x \<le> ?total - sum_list (map ?fp p)))"
  proof (cases ov)
    case None
    with c show ?thesis by (simp add: fits_def)
  next
    case (Some t)
    with c obtain pre post where
      p: "filter ?keep ?walk = pre @ t # post" "prio = pre @ [t]"
         "ceil = ?total - sum_list (map ?fp pre)" "?fp t > ceil" "fits ?fp ?total pre"
      by auto
    from dk p(1) have "t \<notin> set pre" by simp
    with p Some show ?thesis by (auto simp: fits_def)
  qed
  note cs = this
  from r run have g: "getTargetPriority E w tds = Inr (prio, (ov, ceil))" by simp
  show ?thesis
    apply (intro conjI)
      apply (rule sortDescending_mset)
     apply (rule sortDescending_sorted)
    apply (rule exI [of _ prio], rule exI [of _ ov], rule exI [of _ ceil])
    apply (rule conjI [OF g cs])
    done
qed

theorem getTargetPriority_overflow_witness:
  "execMargin (st E0) \<noteq> 0 \<and> distinct (map fst tds0) \<and>
   ramUsage (cost E0) (batch td0) = 139 / 20 \<and>
   snd (moneyPerMsPerRam E0 w0 (''n00dles'', td0)) = 5 \<and>
   snd (moneyPerMsPerRam E0 w0 (''foodnstuff'', td0)) = 3 \<and>
   footprint E0 w0 tds0 ''n00dles'' = 278 \<and> footprint E0 w0 tds0 ''foodnstuff'' = 278 \<and>
   getAvailableHsbRam E0 w0 = 2497 / 5 \<and>
   getTargetPriority E0 w0 tds0 =
     Inr ([''n00dles'', ''foodnstuff''], (Some ''foodnstuff'', 1107 / 5))"
proof -
  have h1: "execMargin (st E0) \<noteq> 0"
    by (simp add: example_defs)
  have h2: "\<forall>(t, td) \<in> set tds0. ramUsage (cost E0) (batch td) \<noteq> 0"
    by (simp add: tds0_def example_defs ramUsage_def)
  have h3: "distinct (map fst tds0)"
    by (simp add: tds0_def)
  have r: "snd (moneyPerMsPerRam E0 w0 (''n00dles'', td0)) = 5 \<and>
           snd (moneyPerMsPerRam E0 w0 (''foodnstuff'', td0)) = 3"
    by (simp add: moneyPerMsPerRam_def example_defs ramUsage_def)
  have f: "footprint E0 w0 tds0 ''n00dles'' = 278 \<and> footprint E0 w0 tds0 ''foodnstuff'' = 278"
    by (simp add: footprint_def maxRam_def js_div_def tds0_def example_defs ramUsage_def)
  note v = example_priority
  have c: "ramUsage (cost E0) (batch td0) = 139 / 20"
    by (simp add: example_defs ramUsage_def)
  from getTargetPriority_overflow [OF h1 h2 h3, of w0] h1 h3 c r f v example_capacity
  show ?thesis by simp
qed

section \<open>Which targets the walk keeps\<close>

text \<open>
  Claim C3 says that \<open>getTargetPriority\<close> skips exactly the targets that are not
  eligible (no root access, a required hacking level above the caller's, or no money) and
  keeps every eligible one. The code skips a target when \<open>ensureCanHack\<close> answers
  true, and \<open>ensureCanHack\<close> answers false when the required level is below the
  caller's. In the first world ''foodnstuff'' has no root access and is kept (it is even
  the overflow target); in the second ''n00dles'' has root access, money and a required
  level equal to the caller's, and is skipped.
\<close>

theorem getTargetPriority_keeps_ineligible:
  "\<not> hasRootAccess noRoot ''foodnstuff'' \<and>
   \<not> ensureCanHack noRoot ''foodnstuff'' \<and>
   getTargetPriority E0 noRoot tds0 =
     Inr ([''n00dles'', ''foodnstuff''], (Some ''foodnstuff'', 1041 / 5)) \<and>
   hasRootAccess sameLevel ''n00dles'' \<and> getServerMaxMoney sameLevel ''n00dles'' = 1000 \<and>
   getServerRequiredHackingLevel sameLevel ''n00dles'' = getHackingLevel sameLevel \<and>
   ensureCanHack sameLevel ''n00dles'' \<and>
   getTargetPriority E0 sameLevel tds0 = Inr ([], (None, 0))"
  by (intro conjI; code_simp)

section \<open>A change of the sub shotgun target\<close>

text \<open>
  Claim C9 says that a change of the sub shotgun target between two cycles empties the
  list of execution times and clears the remainder batch with its execution time. The
  code empties the list only. In the example ''n00dles'' was the sub shotgun target and
  ''foodnstuff'' becomes it: the list is emptied, and \<open>subBatchData\<close> still
  holds the batch of 3 weaken threads due at 1002250.
\<close>

theorem beginCycle_keeps_subBatchData:
  "subShotgunTarget s9 = Some ''n00dles'' \<and>
   beginCycle E0 s9 =
     Inr ([''n00dles'', ''foodnstuff''],
          s9\<lparr>subShotgunMaxRam := 1107 / 5, subShotgunTarget := Some ''foodnstuff'',
             subShotgunBatchExecTimes := []\<rparr>) \<and>
   subBatchData (s9\<lparr>subShotgunMaxRam := 1107 / 5, subShotgunTarget := Some ''foodnstuff'',
                    subShotgunBatchExecTimes := []\<rparr>)
     = (Some \<lparr>hack = 0, grow = 0, weaken = 3\<rparr>, 1002250)"
proof -
  have "getTargetPriority E0 (ns (mach s9)) (targetsData s9) =
          Inr ([''n00dles'', ''foodnstuff''], (Some ''foodnstuff'', 1107 / 5))"
    using example_priority by (simp add: s9_def m0_def)
  then show ?thesis
    by (simp add: beginCycle_def) (simp add: s9_def)
qed


text \<open>
  Claim C9 as amended: when the sub shotgun target that \<open>getTargetPriority\<close>
  returns differs from the stored one, the head of the cycle stores the new target and its
  RAM ceiling and empties the list of execution times; the remainder batch and its
  execution time, the target records and the machine stay as they were.
\<close>

theorem beginCycle_overflow_changed:
  assumes "getTargetPriority E (ns (mach s)) (targetsData s) = Inr (prio, (new, ram))"
    and "new \<noteq> subShotgunTarget s"
  shows "\<exists>s'. beginCycle E s = Inr (prio, s') \<and>
           subShotgunTarget s' = new \<and> subShotgunBatchExecTimes s' = [] \<and>
           subShotgunMaxRam s' = ram \<and> subBatchData s' = subBatchData s \<and>
           targetsData s' = targetsData s \<and> mach s' = mach s"
  using assms by (simp add: beginCycle_def)


theorem beginCycle_overflow_changed_witness:
  "Some ''foodnstuff'' \<noteq> subShotgunTarget s9 \<and>
   (\<exists>s'. beginCycle E0 s9 = Inr ([''n00dles'', ''foodnstuff''], s') \<and>
         subShotgunTarget s' = Some ''foodnstuff'' \<and> subShotgunBatchExecTimes s' = [] \<and>
         subShotgunMaxRam s' = 1107 / 5 \<and>
         subBatchData s' = (Some \<lparr>hack = 0, grow = 0, weaken = 3\<rparr>, 1002250))"
proof -
  have p: "getTargetPriority E0 (ns (mach s9)) (targetsData s9) =
          Inr ([''n00dles'', ''foodnstuff''], (Some ''foodnstuff'', 1107 / 5))"
    using example_priority by (simp add: s9_def m0_def)
  have n: "Some ''foodnstuff'' \<noteq> subShotgunTarget s9"
    by (simp add: s9_def)
  from beginCycle_overflow_changed [OF p n] n show ?thesis
    by (auto simp: s9_def)
qed


section \<open>A fix batch ends the turn of its target\<close>

lemma forTarget_invalid:
  assumes "map_of (targetsData s) target = Some stored"
    and "ensureValidExecTime fuel E (ns (mach s)) target stored = (r, td1)"
    and "r \<noteq> Some True"
  shows "forTarget fuel E target s =
           (if r = None then Inl OutOfFuel
            else Inr (s\<lparr>targetsData := AList.update target td1 (targetsData s)\<rparr>))"
  using assms by (cases r) (auto simp: forTarget_def)


text \<open>
  Claim C10: with a numeric deadline that has passed and a target that is not at minimum
  security and maximum money, \<open>ensureFixed\<close> starts the best fix batch for the
  available RAM at the stored execution time, stores as baseline the security and money
  read after that, advances the execution time by \<open>minDeltaBatchExec\<close> and
  returns false. The body of the main loop then stops for this target with nothing else
  started (neither shotgun runs), and whenever it comes to the target, a validation of the
  execution time that does not succeed ends the turn before anything is started.
\<close>

theorem ensureFixed_dispatch:
  assumes "fixedStatus td = Deadline d" and "d \<le> dateNow (ns m)"
    and "\<not> targetFixed (ns m) target"
  shows "\<exists>td' m'.
           ensureFixed E target td m = (False, td', m') \<and>
           m' = startBatch E target
                  (getBestFixBatch (lb E) (ns m) target (getAvailableHsbRam E (ns m)))
                  (execTime td) m \<and>
           baseSecurity td' = getServerSecurityLevel (ns m') target \<and>
           baseMoney td' = getServerMoneyAvailable (ns m') target \<and>
           execTime td' = execTime td + minDeltaBatchExec (st E) \<and>
           (\<forall>fuel s stored.
              map_of (targetsData s) target = Some stored \<and> mach s = m \<and>
              ensureValidExecTime fuel E (ns (mach s)) target stored = (Some True, td) \<longrightarrow>
              forTarget fuel E target s =
                Inr (s\<lparr>targetsData := AList.update target td' (targetsData s), mach := m'\<rparr>)) \<and>
           (\<forall>fuel s stored r td1.
              map_of (targetsData s) target = Some stored \<and>
              ensureValidExecTime fuel E (ns (mach s)) target stored = (r, td1) \<and> r \<noteq> Some True \<longrightarrow>
              forTarget fuel E target s =
                (if r = None then Inl OutOfFuel
                 else Inr (s\<lparr>targetsData := AList.update target td1 (targetsData s)\<rparr>)))"
proof -
  let ?fixBatch = "getBestFixBatch (lb E) (ns m) target (getAvailableHsbRam E (ns m))"
  let ?m' = "startBatch E target ?fixBatch (execTime td) m"
  obtain td' where run: "ensureFixed E target td m = (False, td', ?m')"
    and bs: "baseSecurity td' = getServerSecurityLevel (ns ?m') target"
    and bm: "baseMoney td' = getServerMoneyAvailable (ns ?m') target"
    and et: "execTime td' = execTime td + minDeltaBatchExec (st E)"
    using assms by (simp add: ensureFixed_def Let_def)
  have skip: "forTarget fuel E target s =
                Inr (s\<lparr>targetsData := AList.update target td' (targetsData s), mach := ?m'\<rparr>)"
    if "map_of (targetsData s) target = Some stored" "mach s = m"
       "ensureValidExecTime fuel E (ns (mach s)) target stored = (Some True, td)"
    for fuel s stored
    using that run by (simp add: forTarget_def)
  have c1: "\<forall>fuel s stored.
              map_of (targetsData s) target = Some stored \<and> mach s = m \<and>
              ensureValidExecTime fuel E (ns (mach s)) target stored = (Some True, td) \<longrightarrow>
              forTarget fuel E target s =
                Inr (s\<lparr>targetsData := AList.update target td' (targetsData s), mach := ?m'\<rparr>)"
  proof (intro allI impI)
    fix fuel and s :: hsb and stored
    assume h: "map_of (targetsData s) target = Some stored \<and> mach s = m \<and>
              ensureValidExecTime fuel E (ns (mach s)) target stored = (Some True, td)"
    then have a: "map_of (targetsData s) target = Some stored" and b: "mach s = m"
      and c: "ensureValidExecTime fuel E (ns (mach s)) target stored = (Some True, td)"
      by blast+
    show "forTarget fuel E target s =
            Inr (s\<lparr>targetsData := AList.update target td' (targetsData s), mach := ?m'\<rparr>)"
      by (rule skip [OF a b c])
  qed
  have c2: "\<forall>fuel s stored r td1.
              map_of (targetsData s) target = Some stored \<and>
              ensureValidExecTime fuel E (ns (mach s)) target stored = (r, td1) \<and> r \<noteq> Some True \<longrightarrow>
              forTarget fuel E target s =
                (if r = None then Inl OutOfFuel
                 else Inr (s\<lparr>targetsData := AList.update target td1 (targetsData s)\<rparr>))"
  proof (intro allI impI)
    fix fuel and s :: hsb and stored r td1
    assume h: "map_of (targetsData s) target = Some stored \<and>
              ensureValidExecTime fuel E (ns (mach s)) target stored = (r, td1) \<and> r \<noteq> Some True"
    then have a: "map_of (targetsData s) target = Some stored"
      and b: "ensureValidExecTime fuel E (ns (mach s)) target stored = (r, td1)"
      and c: "r \<noteq> Some True"
      by blast+
    show "forTarget fuel E target s =
                (if r = None then Inl OutOfFuel
                 else Inr (s\<lparr>targetsData := AList.update target td1 (targetsData s)\<rparr>))"
      by (rule forTarget_invalid [OF a b c])
  qed
  show ?thesis
    apply (rule exI [of _ td'], rule exI [of _ ?m'])
    apply (intro conjI run bs bm et refl c1 c2)
    done
qed


theorem ensureFixed_dispatch_witness:
  "fixedStatus td0 = Deadline 0 \<and> 0 \<le> dateNow (ns m0) \<and> \<not> targetFixed (ns m0) ''n00dles'' \<and>
   (\<exists>td' m'. ensureFixed E0 ''n00dles'' td0 m0 = (False, td', m') \<and>
      started m' = [StartBatch ''n00dles'' \<lparr>hack = 0, grow = 0, weaken = 285\<rparr> 1003150] \<and>
      baseSecurity td' = 10 \<and> baseMoney td' = 500 \<and> execTime td' = 1003200)"
proof -
  have h1: "fixedStatus td0 = Deadline 0" by (simp add: td0_def)
  have h2: "0 \<le> dateNow (ns m0)" by (simp add: m0_def w0_def)
  have h3: "\<not> targetFixed (ns m0) ''n00dles''" by (simp add: targetFixed_def m0_def w0_def)
  have cap: "getAvailableHsbRam E0 (ns m0) = 2497 / 5"
    using example_capacity by (simp add: m0_def)
  from ensureFixed_dispatch [OF h1 h2 h3, of E0]
  obtain td' m' where
    r: "ensureFixed E0 ''n00dles'' td0 m0 = (False, td', m')"
    and m: "m' = startBatch E0 ''n00dles''
                  (getBestFixBatch (lb E0) (ns m0) ''n00dles'' (getAvailableHsbRam E0 (ns m0)))
                  (execTime td0) m0"
    and b: "baseSecurity td' = getServerSecurityLevel (ns m') ''n00dles''"
           "baseMoney td' = getServerMoneyAvailable (ns m') ''n00dles''"
           "execTime td' = execTime td0 + minDeltaBatchExec (st E0)"
    by blast
  have "started m' = [StartBatch ''n00dles'' \<lparr>hack = 0, grow = 0, weaken = 285\<rparr> 1003150]"
    unfolding m cap by (simp add: startBatch_def example_defs)
  moreover have "baseSecurity td' = 10" "baseMoney td' = 500" "execTime td' = 1003200"
    unfolding b m by (simp_all add: startBatch_def example_defs)
  ultimately show ?thesis using r h1 h2 h3 by blast
qed

section \<open>A deviation from the baseline stops the scheduler\<close>

lemma forTargets_append:
  "forTargets fuel E (xs @ ys) s = bindE (forTargets fuel E xs s) (forTargets fuel E ys)"
  by (induction xs arbitrary: s) (auto simp: bindE_def split: sum.splits)

lemma cycles_add:
  "cycles (a + b) fuel E s = bindE (cycles a fuel E s) (cycles b fuel E)"
  by (induction a arbitrary: s) (auto simp: bindE_def split: sum.splits)

lemma cycles_stop: "cycle fuel E s = Inl e \<Longrightarrow> cycles (Suc n) fuel E s = Inl e"
  by simp

lemma targetFixValid_iff:
  "(\<exists>msg. targetFixValid w target td = Inl (Error msg)) \<longleftrightarrow>
     (getServerSecurityLevel w target \<noteq> baseSecurity td \<or>
      getServerMoneyAvailable w target \<noteq> baseMoney td)"
  by (auto simp: targetFixValid_def)

lemma targetFixValid_equal:
  "getServerSecurityLevel w target = baseSecurity td \<Longrightarrow>
   getServerMoneyAvailable w target = baseMoney td \<Longrightarrow>
   targetFixValid w target td = Inr True"
  by (simp add: targetFixValid_def)

lemma targetFixValid_message:
  assumes "getServerSecurityLevel w target \<noteq> baseSecurity td \<or>
           getServerMoneyAvailable w target \<noteq> baseMoney td"
  shows "\<exists>msg. targetFixValid w target td = Inl (Error msg) \<and>
           (if getServerSecurityLevel w target \<noteq> baseSecurity td
            then Num (baseSecurity td) \<in> set msg \<and> Num (getServerSecurityLevel w target) \<in> set msg
            else Num (baseMoney td) \<in> set msg \<and> Num (getServerMoneyAvailable w target) \<in> set msg)"
  using assms by (auto simp: targetFixValid_def)

lemma forTarget_throws:
  assumes "map_of (targetsData s) target = Some stored"
    and "ensureValidExecTime fuel E (ns (mach s)) target stored = (Some True, td1)"
    and "ensureFixed E target td1 (mach s) = (True, td2, m2)"
    and "targetFixValid (ns m2) target td2 = Inl e"
  shows "forTarget fuel E target s = Inl e"
  using assms by (simp add: forTarget_def)


text \<open>
  Claim C5: \<open>targetFixValid\<close> throws an Error exactly when the security read
  differs from the stored baseline security or the money read differs from the stored
  baseline money, in either direction. When the main loop comes to that check in some
  cycle (after \<open>k\<close> cycles, for a target of the priority list, with the execution
  time valid and \<open>ensureFixed\<close> answering true) and there is a deviation, the
  message holds the stored baseline and the value read of the quantity that deviates
  (of the security when both do), and every run of the loop that goes at least that far
  ends with this Error: neither the loop nor \<open>main\<close> catches it.
\<close>

theorem targetFixValid_fatal:
  assumes ran: "cycles k fuel E start = Inr s"
    and head: "beginCycle E s = Inr (before @ target # rest, s1)"
    and pre: "forTargets fuel E before (awaitNextSecHole E s1) = Inr s2"
    and look: "map_of (targetsData s2) target = Some stored"
    and valid: "ensureValidExecTime fuel E (ns (mach s2)) target stored = (Some True, td1)"
    and fixed: "ensureFixed E target td1 (mach s2) = (True, td2, m2)"
    and dev: "getServerSecurityLevel (ns m2) target \<noteq> baseSecurity td2 \<or>
              getServerMoneyAvailable (ns m2) target \<noteq> baseMoney td2"
  shows "(\<forall>w t td. (\<exists>msg. targetFixValid w t td = Inl (Error msg)) \<longleftrightarrow>
            (getServerSecurityLevel w t \<noteq> baseSecurity td \<or>
             getServerMoneyAvailable w t \<noteq> baseMoney td)) \<and>
         (\<exists>msg. targetFixValid (ns m2) target td2 = Inl (Error msg) \<and>
            (if getServerSecurityLevel (ns m2) target \<noteq> baseSecurity td2
             then Num (baseSecurity td2) \<in> set msg \<and>
                  Num (getServerSecurityLevel (ns m2) target) \<in> set msg
             else Num (baseMoney td2) \<in> set msg \<and>
                  Num (getServerMoneyAvailable (ns m2) target) \<in> set msg) \<and>
            cycles (k + Suc n) fuel E start = Inl (Error msg) \<and>
            (start = initialHsb E m \<longrightarrow> main_HsbTargeter (k + Suc n) fuel E m = Inl (Error msg)))"
proof -
  from targetFixValid_message [OF dev] obtain msg where
    thrown: "targetFixValid (ns m2) target td2 = Inl (Error msg)"
    and shown: "if getServerSecurityLevel (ns m2) target \<noteq> baseSecurity td2
             then Num (baseSecurity td2) \<in> set msg \<and>
                  Num (getServerSecurityLevel (ns m2) target) \<in> set msg
             else Num (baseMoney td2) \<in> set msg \<and>
                  Num (getServerMoneyAvailable (ns m2) target) \<in> set msg"
    by blast
  have "forTarget fuel E target s2 = Inl (Error msg)"
    by (rule forTarget_throws [OF look valid fixed thrown])
  then have "forTargets fuel E (before @ target # rest) (awaitNextSecHole E s1) = Inl (Error msg)"
    using pre by (simp add: forTargets_append)
  then have "cycle fuel E s = Inl (Error msg)"
    using head by (simp add: cycle_def awaitNextSecHole_def)
  then have "cycles (Suc n) fuel E s = Inl (Error msg)"
    by (rule cycles_stop)
  then have stop: "cycles (k + Suc n) fuel E start = Inl (Error msg)"
    using ran by (simp only: cycles_add bindE_Inr)
  have "start = initialHsb E m \<longrightarrow> main_HsbTargeter (k + Suc n) fuel E m = Inl (Error msg)"
  proof
    assume "start = initialHsb E m"
    with stop show "main_HsbTargeter (k + Suc n) fuel E m = Inl (Error msg)"
      by (simp only: main_HsbTargeter_def multiServerHSb_def)
  qed
  with thrown shown stop show ?thesis
    using targetFixValid_iff by blast
qed



theorem targetFixValid_fatal_witness:
  "cycles 0 5 E0 s5 = Inr s5 \<and>
   beginCycle E0 s5 = Inr ([] @ ''n00dles'' # [], s5\<lparr>subShotgunMaxRam := 0\<rparr>) \<and>
   getServerSecurityLevel (ns (mach (awaitNextSecHole E0 (s5\<lparr>subShotgunMaxRam := 0\<rparr>)))) ''n00dles'' = 10 \<and>
   baseSecurity (tdFixed\<lparr>execTime := 1004150\<rparr>) = 5 \<and>
   cycles 3 5 E0 s5 =
     Inl (Error
       [Txt ''security larger than the baseSecurity'', Newline,
        Txt ''    targetData.baseSecurity: '', Num 5, Newline,
        Txt ''    current security: '', Num 10, Newline,
        Txt ''    min security: '', Num 10, Newline,
        Txt ''    initial security: '', Num 15])"
proof -
  let ?s1 = "s5\<lparr>subShotgunMaxRam := 0\<rparr>"
  let ?s2 = "awaitNextSecHole E0 ?s1"
  let ?td1 = "tdFixed\<lparr>execTime := 1004150\<rparr>"
  have ran: "cycles 0 5 E0 s5 = Inr s5" by simp
  have prio: "getTargetPriority E0 (ns (mach s5)) (targetsData s5) = Inr ([''n00dles''], (None, 0))"
    unfolding s5_def by code_simp
  have head: "beginCycle E0 s5 = Inr ([] @ ''n00dles'' # [], ?s1)"
    using prio by (simp add: beginCycle_def) (simp add: s5_def)
  have pre: "forTargets 5 E0 [] ?s2 = Inr ?s2" by simp
  have look: "map_of (targetsData ?s2) ''n00dles'' = Some tdFixed"
    by (simp add: awaitNextSecHole_def s5_def)
  have now: "ns (mach ?s2) = w0\<lparr>dateNow := 1001050\<rparr>"
    by (simp add: awaitNextSecHole_def s5_def example_defs)
  have valid: "ensureValidExecTime 5 E0 (ns (mach ?s2)) ''n00dles'' tdFixed = (Some True, ?td1)"
    unfolding now by code_simp
  have fixed: "ensureFixed E0 ''n00dles'' ?td1 (mach ?s2) = (True, ?td1, mach ?s2)"
    by (simp add: ensureFixed_def tdFixed_def)
  have sec: "getServerSecurityLevel (ns (mach ?s2)) ''n00dles'' = 10"
    unfolding now by (simp add: w0_def)
  have base: "baseSecurity ?td1 = 5" by (simp add: tdFixed_def)
  have dev: "getServerSecurityLevel (ns (mach ?s2)) ''n00dles'' \<noteq> baseSecurity ?td1 \<or>
             getServerMoneyAvailable (ns (mach ?s2)) ''n00dles'' \<noteq> baseMoney ?td1"
    using sec base by simp
  from targetFixValid_fatal [OF ran head pre look valid fixed dev, of 2]
  obtain msg where
    thrown: "targetFixValid (ns (mach ?s2)) ''n00dles'' ?td1 = Inl (Error msg)"
    and stop: "cycles (0 + Suc 2) 5 E0 s5 = Inl (Error msg)"
    by blast
  have "targetFixValid (ns (mach ?s2)) ''n00dles'' ?td1 =
     Inl (Error
       [Txt ''security larger than the baseSecurity'', Newline,
        Txt ''    targetData.baseSecurity: '', Num 5, Newline,
        Txt ''    current security: '', Num 10, Newline,
        Txt ''    min security: '', Num 10, Newline,
        Txt ''    initial security: '', Num 15])"
    unfolding now by (simp add: targetFixValid_def tdFixed_def w0_def)
  with thrown stop have "cycles 3 5 E0 s5 =
     Inl (Error
       [Txt ''security larger than the baseSecurity'', Newline,
        Txt ''    targetData.baseSecurity: '', Num 5, Newline,
        Txt ''    current security: '', Num 10, Newline,
        Txt ''    min security: '', Num 10, Newline,
        Txt ''    initial security: '', Num 15])"
    by (simp add: numeral_3_eq_3)
  with ran head sec base show ?thesis by blast
qed

section \<open>The security fix of SetupServer\<close>

lemma floor_times_le:
  fixes c :: real
  assumes "0 < c"
  shows "of_int (min a \<lfloor>C / c\<rfloor>) * c \<le> C"
proof -
  have "of_int (min a \<lfloor>C / c\<rfloor>) \<le> (of_int \<lfloor>C / c\<rfloor> :: real)"
    by simp
  also have "\<dots> \<le> C / c" by (rule of_int_floor_le)
  finally have "of_int (min a \<lfloor>C / c\<rfloor>) * c \<le> (C / c) * c"
    using assms by (simp only: mult_le_cancel_right_pos)
  then show ?thesis using assms by simp
qed

text \<open>
  The security fix keeps to the RAM it is handed: whatever that RAM \<open>C\<close> is,
  \<open>fixSecurity\<close> returns, and the batch it starts, if it starts one, has only
  weaken threads, as many as the minimum of the optimal count and
  \<open>floor (C / RamUsage.weaken)\<close>, and costs at most \<open>C\<close> (for a positive
  weaken cost and an effect of one thread that is not zero).
\<close>

lemma fixSecurity_cost:
  assumes c: "0 < weakenRam (cost E)" and wa: "weakenAnalyze (ns m) 1 \<noteq> 0"
  shows "\<exists>r m'. fixSecurity E target servers C m = Inr (r, m') \<and>
     (if C = 0 \<or> getServerSecurityLevel (ns m) target = getServerMinSecurityLevel (ns m) target
      then started m' = started m
      else \<exists>threads.
             started m' = started m @ [StartThreads target threads servers] \<and>
             hack threads = 0 \<and> grow threads = 0 \<and>
             weaken threads =
               min \<lceil>(getServerSecurityLevel (ns m) target - getServerMinSecurityLevel (ns m) target)
                      / weakenAnalyze (ns m) 1\<rceil>
                   \<lfloor>C / weakenRam (cost E)\<rfloor> \<and>
             ramUsage (cost E) threads \<le> C)"
proof (cases "C = 0 \<or> getServerSecurityLevel (ns m) target = getServerMinSecurityLevel (ns m) target")
  case True
  then show ?thesis by (auto simp: fixSecurity_def)
next
  case False
  let ?opt = "\<lceil>(getServerSecurityLevel (ns m) target - getServerMinSecurityLevel (ns m) target)
                      / weakenAnalyze (ns m) 1\<rceil>"
  let ?max = "\<lfloor>C / weakenRam (cost E)\<rfloor>"
  let ?threads = "\<lparr>hack = 0, grow = 0, weaken = min ?opt ?max\<rparr>"
  let ?m1 = "startThreads E target ?threads servers m"
  from c have c0: "weakenRam (cost E) \<noteq> 0" by simp
  have run: "fixSecurity E target servers C m =
          (if \<not> ?opt \<le> ?max then Inr (False, sleep E (getWeakenTime (ns ?m1) target) ?m1)
           else Inr (True, sleep E 10 ?m1))"
    using False wa c0 by (simp add: fixSecurity_def js_div_def Let_def)
  have st: "started (sleep E ms ?m1) = started m @ [StartThreads target ?threads servers]" for ms
    by (simp add: sleep_def startThreads_def)
  have "ramUsage (cost E) ?threads = of_int (min ?opt ?max) * weakenRam (cost E)"
    by (simp add: ramUsage_def)
  also have "\<dots> \<le> C" by (rule floor_times_le [OF c])
  finally have le: "ramUsage (cost E) ?threads \<le> C" .
  have post: "\<exists>threads.
             started (sleep E ms ?m1) = started m @ [StartThreads target threads servers] \<and>
             hack threads = 0 \<and> grow threads = 0 \<and>
             weaken threads = min ?opt ?max \<and>
             ramUsage (cost E) threads \<le> C" for ms
    by (rule exI [of _ ?threads]) (simp add: st le)
  from run obtain r ms where "fixSecurity E target servers C m = Inr (r, sleep E ms ?m1)"
    by (cases "?opt \<le> ?max") auto
  with post [of ms] False show ?thesis
    by (intro exI [of _ r] exI [of _ "sleep E ms ?m1"]) simp
qed

lemma fixServerBody_security_false:
  assumes "fixSecurity E target servers (getAvailableRam (lb E) (ns (sleep E 100 m)) servers)
             (sleep E 100 m) = Inr (False, m2)"
  shows "fixServerBody E target servers m = Inr (False, m2)"
  using assms by (simp add: fixServerBody_def Let_def)

text \<open>
  Claim C8: when the security is not at its minimum and the optimal weaken count exceeds
  \<open>floor (availableRam / RamUsage.weaken)\<close>, \<open>fixSecurity\<close> starts the
  batch of that floor count of weaken threads (for an available RAM of 0 that batch is
  empty and nothing is started) and returns false. In \<open>fixServer\<close>, where the
  call follows the sleep of 100 ms with the RAM read then, the loop body ends there as a
  \<open>continue\<close> in the state \<open>fixSecurity\<close> left, so no money fix has
  run, and the loop goes on with the body again, which starts with the security fix.
\<close>

theorem fixSecurity_infeasible:
  assumes c: "weakenRam (cost E) \<noteq> 0" and wa: "weakenAnalyze (ns m1) 1 \<noteq> 0"
    and need: "getServerSecurityLevel (ns m1) target \<noteq> getServerMinSecurityLevel (ns m1) target"
    and short: "\<lfloor>availableRam / weakenRam (cost E)\<rfloor> <
                \<lceil>(getServerSecurityLevel (ns m1) target - getServerMinSecurityLevel (ns m1) target)
                   / weakenAnalyze (ns m1) 1\<rceil>"
  shows "\<exists>m2. fixSecurity E target servers availableRam m1 = Inr (False, m2) \<and>
           started m2 = started m1 @
             (if availableRam = 0 then []
              else [StartThreads target
                      \<lparr>hack = 0, grow = 0, weaken = \<lfloor>availableRam / weakenRam (cost E)\<rfloor>\<rparr>
                      servers]) \<and>
           (\<forall>m fuel.
              m1 = sleep E 100 m \<and> availableRam = getAvailableRam (lb E) (ns m1) servers \<longrightarrow>
              fixServerBody E target servers m = Inr (False, m2) \<and>
              fixServerLoop (Suc (Suc fuel)) E target servers m =
                bindE (fixServerBody E target servers m2)
                  (\<lambda>(finished, m3).
                     if finished then Inr m3 else fixServerLoop fuel E target servers m3))"
proof -
  let ?max = "\<lfloor>availableRam / weakenRam (cost E)\<rfloor>"
  let ?threads = "\<lparr>hack = 0, grow = 0, weaken = ?max\<rparr>"
  let ?m' = "startThreads E target ?threads servers m1"
  define m2 where
    "m2 = (if availableRam = 0 then m1 else sleep E (getWeakenTime (ns ?m') target) ?m')"
  from short have mn: "min \<lceil>(getServerSecurityLevel (ns m1) target
                                 - getServerMinSecurityLevel (ns m1) target)
                               / weakenAnalyze (ns m1) 1\<rceil> ?max = ?max"
    by simp
  have run: "fixSecurity E target servers availableRam m1 = Inr (False, m2)"
    using c wa need short unfolding m2_def
    by (simp add: fixSecurity_def js_div_def Let_def mn)
  have st: "started m2 = started m1 @
             (if availableRam = 0 then [] else [StartThreads target ?threads servers])"
    by (simp add: m2_def sleep_def startThreads_def)
  have loop: "fixServerBody E target servers m = Inr (False, m2) \<and>
              fixServerLoop (Suc (Suc fuel)) E target servers m =
                bindE (fixServerBody E target servers m2)
                  (\<lambda>(finished, m3).
                     if finished then Inr m3 else fixServerLoop fuel E target servers m3)"
    if "m1 = sleep E 100 m \<and> availableRam = getAvailableRam (lb E) (ns m1) servers" for m fuel
  proof -
    from that run have "fixSecurity E target servers
        (getAvailableRam (lb E) (ns (sleep E 100 m)) servers) (sleep E 100 m) = Inr (False, m2)"
      by simp
    then have b: "fixServerBody E target servers m = Inr (False, m2)"
      by (rule fixServerBody_security_false)
    then show ?thesis by simp
  qed
  show ?thesis
    apply (rule exI [of _ m2])
    apply (intro conjI run st allI impI)
     apply (erule loop [THEN conjunct1])
    apply (erule loop [THEN conjunct2])
    done
qed

theorem fixSecurity_infeasible_witness:
  "weakenRam (cost E0) \<noteq> 0 \<and> weakenAnalyze (ns (sleep E0 100 m0)) 1 \<noteq> 0 \<and>
   getAvailableRam (lb E0) (ns (sleep E0 100 m0)) [] = 100 \<and>
   \<lfloor>(100::real) / weakenRam (cost E0)\<rfloor> = 57 \<and>
   \<lceil>(getServerSecurityLevel (ns (sleep E0 100 m0)) ''n00dles''
       - getServerMinSecurityLevel (ns (sleep E0 100 m0)) ''n00dles'')
      / weakenAnalyze (ns (sleep E0 100 m0)) 1\<rceil> = 100 \<and>
   (\<exists>m2. fixSecurity E0 ''n00dles'' [] 100 (sleep E0 100 m0) = Inr (False, m2) \<and>
      started m2 = [StartThreads ''n00dles'' \<lparr>hack = 0, grow = 0, weaken = 57\<rparr> []] \<and>
      fixServerBody E0 ''n00dles'' [] m0 = Inr (False, m2))"
proof -
  let ?m1 = "sleep E0 100 m0"
  have w1: "ns ?m1 = w0\<lparr>dateNow := 1000150\<rparr>"
    by (simp add: sleep_def example_defs)
  have c: "weakenRam (cost E0) \<noteq> 0" by (simp add: example_defs)
  have wa: "weakenAnalyze (ns ?m1) 1 \<noteq> 0" unfolding w1 by (simp add: example_defs)
  have need: "getServerSecurityLevel (ns ?m1) ''n00dles'' \<noteq> getServerMinSecurityLevel (ns ?m1) ''n00dles''"
    unfolding w1 by (simp add: example_defs)
  have ram: "getAvailableRam (lb E0) (ns ?m1) [] = 100" by (simp add: example_defs)
  have mx: "\<lfloor>(100::real) / weakenRam (cost E0)\<rfloor> = 57" by (simp add: example_defs)
  have opt: "\<lceil>(getServerSecurityLevel (ns ?m1) ''n00dles''
       - getServerMinSecurityLevel (ns ?m1) ''n00dles'') / weakenAnalyze (ns ?m1) 1\<rceil> = 100"
    unfolding w1 by (simp add: example_defs)
  have short: "\<lfloor>(100::real) / weakenRam (cost E0)\<rfloor> <
                \<lceil>(getServerSecurityLevel (ns ?m1) ''n00dles''
                    - getServerMinSecurityLevel (ns ?m1) ''n00dles'')
                   / weakenAnalyze (ns ?m1) 1\<rceil>"
    unfolding mx opt by simp
  from fixSecurity_infeasible [OF c wa need short, of "[]"]
  obtain m2 where
    run: "fixSecurity E0 ''n00dles'' [] 100 ?m1 = Inr (False, m2)"
    and st: "started m2 = started ?m1 @
             (if (100::real) = 0 then []
              else [StartThreads ''n00dles''
                      \<lparr>hack = 0, grow = 0, weaken = \<lfloor>100 / weakenRam (cost E0)\<rfloor>\<rparr> []])"
    and loop: "\<forall>m fuel.
              ?m1 = sleep E0 100 m \<and> (100::real) = getAvailableRam (lb E0) (ns ?m1) [] \<longrightarrow>
              fixServerBody E0 ''n00dles'' [] m = Inr (False, m2) \<and>
              fixServerLoop (Suc (Suc fuel)) E0 ''n00dles'' [] m =
                bindE (fixServerBody E0 ''n00dles'' [] m2)
                  (\<lambda>(finished, m3).
                     if finished then Inr m3 else fixServerLoop fuel E0 ''n00dles'' [] m3)"
    by blast
  from loop ram have body: "fixServerBody E0 ''n00dles'' [] m0 = Inr (False, m2)"
    by simp
  have "started m2 = [StartThreads ''n00dles'' \<lparr>hack = 0, grow = 0, weaken = 57\<rparr> []]"
    using st unfolding mx by (simp add: sleep_def m0_def)
  with run body c wa ram mx opt show ?thesis by blast
qed

section \<open>The money fix of SetupServer\<close>

lemma growPToRam_hack: "hack (growPToRam w target threads x) = hack threads"
  by (simp add: growPToRam_def Let_def)

lemma foldl_growPToRam_hack:
  "hack (foldl (growPToRam w target) threads xs) = hack threads"
  by (induction xs arbitrary: threads) (simp_all add: growPToRam_hack)

lemma example_cheapest_trial:
  assumes "1 \<le> x" and "hack threads = 0"
  shows "49 / 4 \<le> ramUsage R0 (growPToRam w0 ''n00dles'' threads x)"
proof -
  define g where "g = \<lceil>growthAnalyze w0 ''n00dles'' x\<rceil>"
  define k where "k = \<lceil>growthAnalyzeSecurity w0 (of_int g) / weakenAnalyze w0 1\<rceil>"
  have "(5::real) < x * 107 / 20" using assms(1) by simp
  then have "5 < growthAnalyze w0 ''n00dles'' x" by (simp add: w0_def)
  then have g6: "6 \<le> g" unfolding g_def by linarith
  have "growthAnalyzeSecurity w0 (of_int g) / weakenAnalyze w0 1 = of_int g * 2 / 25"
    by (simp add: w0_def)
  moreover have "(0::real) < of_int g * 2 / 25" using g6 by simp
  ultimately have k1: "1 \<le> k" unfolding k_def by linarith
  have "ramUsage R0 (growPToRam w0 ''n00dles'' threads x) =
          of_int g * (7 / 4) + of_int k * (7 / 4)"
    using assms(2) by (simp add: ramUsage_def growPToRam_def Let_def R0_def g_def k_def)
  moreover have "(6::real) \<le> of_int g" using g6 by linarith
  moreover have "(1::real) \<le> of_int k" using k1 by linarith
  ultimately show ?thesis by simp
qed

lemma example_any_search_over_ceiling:
  assumes "trials \<noteq> []" and "1 \<le> last trials"
  shows "49 / 4 \<le> ramUsage R0
           (foldl (growPToRam w0 ''n00dles'') \<lparr>hack = 0, grow = 0, weaken = 0\<rparr> trials)"
proof -
  from assms(1) obtain ys x where t: "trials = ys @ [x]"
    by (metis rev_exhaust)
  with assms(2) have x: "1 \<le> x" by simp
  have h: "hack (foldl (growPToRam w0 ''n00dles'') \<lparr>hack = 0, grow = 0, weaken = 0\<rparr> ys) = 0"
    by (simp add: foldl_growPToRam_hack)
  from example_cheapest_trial [OF x h] show ?thesis by (simp add: t)
qed


lemma example_search_over_ceiling:
  assumes "cost E = R0"
    and "estimateX (lb E)
           (\<lambda>x. ramUsage (cost E)
                   (growPToRam w0 ''n00dles'' \<lparr>hack = 0, grow = 0, weaken = 0\<rparr> x))
           C 1 maxMul = trials"
    and "trials \<noteq> []" and "1 \<le> last trials"
  shows "49 / 4 \<le> ramUsage (cost E) (searchedThreads E w0 ''n00dles'' C maxMul)"
  using example_any_search_over_ceiling [OF assms(3,4)] assms(1,2)
  by (simp add: searchedThreads_def)



text \<open>
  Claim C7 says that \<open>fixMoney\<close> reports the target fully fixed exactly when the
  grow count found by the search is within 0.5 of the theoretical optimal grow count. The
  code tests \<open>growthAnalyze(target, maxMul) + 1 - threads.grow < 0.5\<close> in the branch
  it comments with \<open>the grow is maximal\<close>. In the first example the money is 500 of
  1000, \<open>growthAnalyze(target, 2)\<close> is 10.7, and the search leaves 11 grow threads,
  the count the code logs as \<open>optimal grow\<close>, 0.3 from the optimum and well within
  the RAM of 100: the test computes 0.7, and \<open>fixMoney\<close> waits 3015 ms and returns
  false. In the second the optimum is the whole number 10 and the search leaves exactly
  10 grow threads: the test computes 1, and \<open>fixMoney\<close> returns false again.
\<close>

theorem fixMoney_false_at_optimum:
  "growthAnalyze (ns m0) ''n00dles'' 2 = 107 / 10 \<and>
   searchedThreads E0 (ns m0) ''n00dles'' 100 2 = \<lparr>hack = 0, grow = 11, weaken = 1\<rparr> \<and>
   \<lceil>growthAnalyze (ns m0) ''n00dles'' 2\<rceil> = 11 \<and>
   ramUsage (cost E0) \<lparr>hack = 0, grow = 11, weaken = 1\<rparr> \<le> 100 \<and>
   fixMoney E0 ''n00dles'' [] 100 m0 =
     Inr (False,
          sleep E0 3015 (startThreads E0 ''n00dles'' \<lparr>hack = 0, grow = 11, weaken = 1\<rparr> [] m0)) \<and>
   growthAnalyze (ns wholeGrowth) ''n00dles'' 2 = 10 \<and>
   searchedThreads E0 (ns wholeGrowth) ''n00dles'' 100 2 = \<lparr>hack = 0, grow = 10, weaken = 1\<rparr> \<and>
   fixMoney E0 ''n00dles'' [] 100 wholeGrowth =
     Inr (False,
          sleep E0 3015
            (startThreads E0 ''n00dles'' \<lparr>hack = 0, grow = 10, weaken = 1\<rparr> [] wholeGrowth))"
proof -
  have th: "searchedThreads E0 (ns m0) ''n00dles'' 100 2 = \<lparr>hack = 0, grow = 11, weaken = 1\<rparr>"
    by (simp add: searchedThreads_def growPToRam_def example_defs Let_def)
  have run: "fixMoney E0 ''n00dles'' [] 100 m0 =
     Inr (False,
          sleep E0 3015 (startThreads E0 ''n00dles'' \<lparr>hack = 0, grow = 11, weaken = 1\<rparr> [] m0))"
    by (simp add: fixMoney_def js_div_def searchedThreads_def growPToRam_def startThreads_def
          sleep_def example_defs Let_def)
  have c: "ramUsage (cost E0) \<lparr>hack = 0, grow = 11, weaken = 1\<rparr> \<le> 100"
    by (simp add: ramUsage_def example_defs)
  have g: "growthAnalyze (ns m0) ''n00dles'' 2 = 107 / 10" by (simp add: example_defs)
  have cg: "\<lceil>growthAnalyze (ns m0) ''n00dles'' 2\<rceil> = 11" unfolding g by simp
  have g': "growthAnalyze (ns wholeGrowth) ''n00dles'' 2 = 10"
    by (simp add: wholeGrowth_def example_defs)
  have th': "searchedThreads E0 (ns wholeGrowth) ''n00dles'' 100 2 =
               \<lparr>hack = 0, grow = 10, weaken = 1\<rparr>"
    by (simp add: searchedThreads_def growPToRam_def wholeGrowth_def example_defs Let_def)
  have run': "fixMoney E0 ''n00dles'' [] 100 wholeGrowth =
     Inr (False,
          sleep E0 3015
            (startThreads E0 ''n00dles'' \<lparr>hack = 0, grow = 10, weaken = 1\<rparr> [] wholeGrowth))"
    by (simp add: fixMoney_def js_div_def searchedThreads_def growPToRam_def startThreads_def
          sleep_def wholeGrowth_def example_defs Let_def)
  from g th cg c run g' th' run' show ?thesis by (intro conjI)
qed

section \<open>The execution time of a target only grows\<close>

lemma advanced_refl: "advanced tds tds"
  by (auto simp: advanced_def)

lemma advanced_trans: "advanced a b \<Longrightarrow> advanced b c \<Longrightarrow> advanced a c"
  unfolding advanced_def by (meson order_trans)

lemma advanced_update:
  assumes "map_of tds target = Some stored" and "execTime stored \<le> execTime td'"
  shows "advanced tds (AList.update target td' tds)"
  using assms by (auto simp: advanced_def update_conv')

lemma dispatched_Nil: "dispatched E target [] td m td m"
  by (simp add: dispatched_def)

lemma dispatched_Cons:
  assumes "dispatched E target bs
             (td\<lparr>execTime := execTime td + minDeltaBatchExec (st E)\<rparr>)
             (startBatch E target b (execTime td) m) td' m'"
  shows "dispatched E target (b # bs) td m td' m'"
proof -
  have e: "List.enumerate 0 (b # bs) = (0, b) # map (apfst Suc) (List.enumerate 0 bs)"
    by (simp add: enumerate_Suc_eq)
  show ?thesis
    using assms unfolding dispatched_def e
    by (simp add: startBatch_def split_def comp_def algebra_simps)
qed

lemma dispatched_le:
  assumes "0 \<le> minDeltaBatchExec (st E)" and "dispatched E target bs td m td' m'"
  shows "execTime td \<le> execTime td'"
  using assms by (simp add: dispatched_def)

lemma dispatched_less:
  assumes "0 < minDeltaBatchExec (st E)" and "dispatched E target bs td m td' m'" and "bs \<noteq> []"
  shows "execTime td < execTime td'"
  using assms by (cases bs) (simp_all add: dispatched_def add_pos_nonneg)

lemma fullShotgunLoop_dispatched:
  "fullShotgunLoop n E target td m = (td', m') \<Longrightarrow>
   dispatched E target (replicate n (batch td)) td m td' m'"
proof (induction n arbitrary: td m)
  case 0
  then show ?case by (simp add: dispatched_def)
next
  case (Suc n)
  from Suc.prems have
    "fullShotgunLoop n E target (td\<lparr>execTime := execTime td + minDeltaBatchExec (st E)\<rparr>)
       (startBatch E target (batch td) (execTime td) m) = (td', m')"
    by simp
  from Suc.IH [OF this] show ?case
    by (simp add: dispatched_Cons)
qed

lemma subShotgunLoop_dispatched:
  "subShotgunLoop n E target ts td m = (ts', td', m') \<Longrightarrow>
   dispatched E target (replicate n (batch td)) td m td' m' \<and> batch td' = batch td"
proof (induction n arbitrary: ts td m)
  case 0
  then show ?case by (simp add: dispatched_def)
next
  case (Suc n)
  from Suc.prems have
    "subShotgunLoop n E target (ts @ [execTime td])
       (td\<lparr>execTime := execTime td + minDeltaBatchExec (st E)\<rparr>)
       (startBatch E target (batch td) (execTime td) m) = (ts', td', m')"
    by simp
  from Suc.IH [OF this] show ?case
    by (simp add: dispatched_Cons)
qed

lemma dispatched_snoc:
  assumes "dispatched E target bs td m td1 m1"
  shows "dispatched E target (bs @ [b]) td m
           (td1\<lparr>execTime := execTime td1 + minDeltaBatchExec (st E)\<rparr>)
           (startBatch E target b (execTime td1) m1)"
  using assms
  by (simp add: dispatched_def startBatch_def enumerate_append_eq algebra_simps)

lemma scheduleFullShotgun_dispatched:
  assumes "scheduleFullShotgun E target td m = Inr (td', m')"
  shows "\<exists>n. dispatched E target (replicate n (batch td)) td m td' m'"
  using assms
  by (auto simp: scheduleFullShotgun_def bindE_def Let_def split: sum.splits
           dest: fullShotgunLoop_dispatched)

lemma scheduleSubShotgun_dispatched:
  assumes "scheduleSubShotgun E target td ts ram sbd m = Inr (x, td', m')"
  shows "\<exists>n bs. (bs = replicate n (batch td) \<or> (\<exists>sub. bs = replicate n (batch td) @ [sub])) \<and>
           dispatched E target bs td m td' m'"
proof -
  let ?avail = "getSubShotgunAvailableRam E (ns m) td ts ram sbd"
  note d = scheduleSubShotgun_def Let_def
  from assms obtain q where q: "js_div ?avail (ramUsage (cost E) (batch td)) = Inr q"
    by (cases "js_div ?avail (ramUsage (cost E) (batch td))") (simp_all add: d)
  from assms q obtain mbt where mbt: "getMaxBatchesForTime E (execTime td) = Inr mbt"
    by (cases "getMaxBatchesForTime E (execTime td)") (simp_all add: d)
  let ?n = "forCount (min (of_int \<lfloor>q\<rfloor>) mbt)"
  obtain ts1 td1 m1 where lp: "subShotgunLoop ?n E target ts td m = (ts1, td1, m1)"
    by (cases "subShotgunLoop ?n E target ts td m") auto
  from assms q mbt lp obtain sl where sl: "getMaxBatchesForTime E (execTime td1) = Inr sl"
    by (cases "getMaxBatchesForTime E (execTime td1)") (simp_all add: d)
  note d1 = subShotgunLoop_dispatched [OF lp, THEN conjunct1]
  show ?thesis
  proof (cases "1 \<le> sl \<and> snd sbd < dateNow (ns m1)")
    case True
    with assms q mbt lp sl obtain sub where
      "td' = td1\<lparr>execTime := execTime td1 + minDeltaBatchExec (st E)\<rparr>"
      "m' = startBatch E target sub (execTime td1) m1"
      by (auto simp: d)
    with dispatched_snoc [OF d1, of sub] show ?thesis by blast
  next
    case False
    with assms q mbt lp sl have "td' = td1" "m' = m1" by (auto simp: d)
    with d1 show ?thesis by blast
  qed
qed

lemma ensureFixed_dispatched:
  assumes "ensureFixed E target td m = (b, td', m')"
  shows "\<exists>bs. length bs \<le> 1 \<and> dispatched E target bs td m td' m'"
proof (cases "started m' = started m")
  case True
  with assms have "dispatched E target [] td m td' m'"
    by (auto simp: ensureFixed_def dispatched_def Let_def startBatch_def
             split: if_splits fixedStatus.splits)
  then show ?thesis by (intro exI [of _ "[]"]) simp
next
  case False
  with assms have "dispatched E target
      [getBestFixBatch (lb E) (ns m) target (getAvailableHsbRam E (ns m))] td m td' m'"
    by (auto simp: ensureFixed_def dispatched_def Let_def startBatch_def
             split: if_splits fixedStatus.splits)
  then show ?thesis
    by (intro exI [of _ "[getBestFixBatch (lb E) (ns m) target (getAvailableHsbRam E (ns m))]"]) simp
qed

lemma ensureValidExecTimeLoop_le:
  assumes d: "0 \<le> minDeltaBatchExec (st E)" and e: "\<forall>t. t \<le> getNextLowSecEnd (lb E) t"
  shows "execTime td \<le> execTime (snd (ensureValidExecTimeLoop fuel E w target td))"
proof (induction fuel arbitrary: td)
  case 0
  show ?case by simp
next
  case (Suc fuel)
  let ?first = "getNextLowSecEnd (lb E) (dateNow w) + minDeltaBatchExec (st E) + getWeakenTime w target"
  let ?next = "getNextLowSecEnd (lb E) (execTime td) + minDeltaBatchExec (st E)"
  have n: "execTime td \<le> ?next" using d e [rule_format, of "execTime td"] by simp
  show ?case
  proof (cases "execTime td < ?first")
    case True
    from Suc.IH [of "td\<lparr>execTime := ?first\<rparr>"] True show ?thesis
      by (simp add: Let_def)
  next
    case False
    show ?thesis
    proof (cases "collides E (execTime td)")
      case True
      from Suc.IH [of "td\<lparr>execTime := ?next\<rparr>"] n True False show ?thesis
        by (simp add: Let_def collides_def)
    next
      case c: False
      with False show ?thesis by (simp add: Let_def collides_def)
    qed
  qed
qed

lemma ensureValidExecTimeLoop_post:
  "ensureValidExecTimeLoop fuel E w target td = (Some b, td') \<Longrightarrow>
   getNextLowSecEnd (lb E) (dateNow w) + minDeltaBatchExec (st E) + getWeakenTime w target
     \<le> execTime td' \<and> \<not> collides E (execTime td')"
proof (induction fuel arbitrary: td)
  case 0
  then show ?case by simp
next
  case (Suc fuel)
  let ?first = "getNextLowSecEnd (lb E) (dateNow w) + minDeltaBatchExec (st E) + getWeakenTime w target"
  let ?next = "getNextLowSecEnd (lb E) (execTime td) + minDeltaBatchExec (st E)"
  show ?case
  proof (cases "execTime td < ?first")
    case True
    with Suc.prems have "ensureValidExecTimeLoop fuel E w target (td\<lparr>execTime := ?first\<rparr>) = (Some b, td')"
      by (simp add: Let_def)
    then show ?thesis by (rule Suc.IH)
  next
    case False
    show ?thesis
    proof (cases "collides E (execTime td)")
      case True
      with False Suc.prems
      have "ensureValidExecTimeLoop fuel E w target (td\<lparr>execTime := ?next\<rparr>) = (Some b, td')"
        by (simp add: Let_def collides_def)
      then show ?thesis by (rule Suc.IH)
    next
      case c: False
      with False Suc.prems have "td' = td"
        by (simp add: Let_def collides_def split: if_splits)
      with False c show ?thesis by simp
    qed
  qed
qed

lemma ensureValidExecTime_le:
  assumes "0 \<le> minDeltaBatchExec (st E)" and "\<forall>t. t \<le> getNextLowSecEnd (lb E) t"
    and "ensureValidExecTime fuel E w target td = (r, td')"
  shows "execTime td \<le> execTime td'"
proof (cases "inLowSecHole (lb E) (dateNow w)")
  case True
  with assms(3) have "td' = snd (ensureValidExecTimeLoop fuel E w target td)"
    by (simp add: ensureValidExecTime_def)
  with ensureValidExecTimeLoop_le [OF assms(1,2)] show ?thesis by simp
next
  case False
  with assms(3) show ?thesis by (simp add: ensureValidExecTime_def)
qed

lemma ensureValidExecTime_post:
  assumes "inLowSecHole (lb E) (dateNow w)"
    and "ensureValidExecTime fuel E w target td = (Some b, td')"
  shows "getNextLowSecEnd (lb E) (dateNow w) + minDeltaBatchExec (st E) + getWeakenTime w target
           \<le> execTime td' \<and> \<not> collides E (execTime td')"
  using assms by (simp add: ensureValidExecTime_def ensureValidExecTimeLoop_post)

lemma forTarget_update:
  assumes d: "0 \<le> minDeltaBatchExec (st E)" and e: "\<forall>t. t \<le> getNextLowSecEnd (lb E) t"
    and run: "forTarget fuel E target s = Inr s'"
  shows "\<exists>stored td'. map_of (targetsData s) target = Some stored \<and>
           targetsData s' = AList.update target td' (targetsData s) \<and>
           execTime stored \<le> execTime td'"
proof -
  from run obtain stored where look: "map_of (targetsData s) target = Some stored"
    by (cases "map_of (targetsData s) target") (simp_all add: forTarget_def)
  obtain r td1 where v: "ensureValidExecTime fuel E (ns (mach s)) target stored = (r, td1)"
    by (cases "ensureValidExecTime fuel E (ns (mach s)) target stored") auto
  note le1 = ensureValidExecTime_le [OF d e v]
  show ?thesis
  proof (cases r)
    case None
    with run look v show ?thesis by (simp add: forTarget_def)
  next
    case (Some ok)
    show ?thesis
    proof (cases ok)
      case False
      with run look v Some have "targetsData s' = AList.update target td1 (targetsData s)"
        by (auto simp: forTarget_def)
      with look le1 show ?thesis by blast
    next
      case True
      obtain b td2 m2 where f: "ensureFixed E target td1 (mach s) = (b, td2, m2)"
        by (cases "ensureFixed E target td1 (mach s)") auto
      from ensureFixed_dispatched [OF f] obtain bs where "dispatched E target bs td1 (mach s) td2 m2"
        by blast
      from dispatched_le [OF d this] le1 have le2: "execTime stored \<le> execTime td2" by simp
      show ?thesis
      proof (cases b)
        case False
        with run look v Some True f have "targetsData s' = AList.update target td2 (targetsData s)"
          by (auto simp: forTarget_def)
        with look le2 show ?thesis by blast
      next
        case fixed: True
        from run look v Some True f fixed obtain valid where
          tv: "targetFixValid (ns m2) target td2 = Inr valid"
          by (cases "targetFixValid (ns m2) target td2") (simp_all add: forTarget_def)
        show ?thesis
        proof (cases "subShotgunTarget s = Some target")
          case sub: True
          from run look v Some True f fixed tv sub obtain x td3 m3 where
            sc: "scheduleSubShotgun E target td2 (subShotgunBatchExecTimes s) (subShotgunMaxRam s)
                   (subBatchData s) m2 = Inr (x, td3, m3)"
            and upd: "targetsData s' = AList.update target td3 (targetsData s)"
            by (cases "scheduleSubShotgun E target td2 (subShotgunBatchExecTimes s)
                         (subShotgunMaxRam s) (subBatchData s) m2")
               (auto simp: forTarget_def)
          from scheduleSubShotgun_dispatched [OF sc] obtain bs' where
            "dispatched E target bs' td2 m2 td3 m3" by blast
          from dispatched_le [OF d this] le2 have "execTime stored \<le> execTime td3" by simp
          with look upd show ?thesis by blast
        next
          case full: False
          from run look v Some True f fixed tv full obtain td3 m3 where
            sc: "scheduleFullShotgun E target td2 m2 = Inr (td3, m3)"
            and upd: "targetsData s' = AList.update target td3 (targetsData s)"
            by (cases "scheduleFullShotgun E target td2 m2") (auto simp: forTarget_def)
          from scheduleFullShotgun_dispatched [OF sc] obtain n where
            "dispatched E target (replicate n (batch td2)) td2 m2 td3 m3" by blast
          from dispatched_le [OF d this] le2 have "execTime stored \<le> execTime td3" by simp
          with look upd show ?thesis by blast
        qed
      qed
    qed
  qed
qed

lemma forTarget_advanced:
  assumes "0 \<le> minDeltaBatchExec (st E)" and "\<forall>t. t \<le> getNextLowSecEnd (lb E) t"
    and "forTarget fuel E target s = Inr s'"
  shows "advanced (targetsData s) (targetsData s')"
  using forTarget_update [OF assms] advanced_update by auto

lemma forTargets_advanced:
  assumes d: "0 \<le> minDeltaBatchExec (st E)" and e: "\<forall>t. t \<le> getNextLowSecEnd (lb E) t"
  shows "forTargets fuel E targets s = Inr s' \<Longrightarrow> advanced (targetsData s) (targetsData s')"
proof (induction targets arbitrary: s)
  case Nil
  then show ?case by (simp add: advanced_refl)
next
  case (Cons target rest)
  from Cons.prems obtain s1 where one: "forTarget fuel E target s = Inr s1"
    and more: "forTargets fuel E rest s1 = Inr s'"
    by (cases "forTarget fuel E target s") simp_all
  from forTarget_advanced [OF d e one] Cons.IH [OF more] show ?case
    by (rule advanced_trans)
qed

lemma beginCycle_targetsData:
  "beginCycle E s = Inr (prio, s1) \<Longrightarrow> targetsData s1 = targetsData s"
  by (auto simp: beginCycle_def bindE_def Let_def split: sum.splits prod.splits if_splits)

lemma cycle_advanced:
  assumes d: "0 \<le> minDeltaBatchExec (st E)" and e: "\<forall>t. t \<le> getNextLowSecEnd (lb E) t"
    and run: "cycle fuel E s = Inr s'"
  shows "advanced (targetsData s) (targetsData s')"
proof -
  from run obtain prio s1 where h: "beginCycle E s = Inr (prio, s1)"
    and f: "forTargets fuel E prio (awaitNextSecHole E s1) = Inr s'"
    by (cases "beginCycle E s") (auto simp: cycle_def)
  from forTargets_advanced [OF d e f] beginCycle_targetsData [OF h] show ?thesis
    by (simp add: awaitNextSecHole_def)
qed

lemma cycles_advanced:
  assumes d: "0 \<le> minDeltaBatchExec (st E)" and e: "\<forall>t. t \<le> getNextLowSecEnd (lb E) t"
  shows "cycles n fuel E s = Inr s' \<Longrightarrow> advanced (targetsData s) (targetsData s')"
proof (induction n arbitrary: s)
  case 0
  then show ?case by (simp add: advanced_refl)
next
  case (Suc n)
  from Suc.prems obtain s1 where one: "cycle fuel E s = Inr s1"
    and more: "cycles n fuel E s1 = Inr s'"
    by (cases "cycle fuel E s") simp_all
  from cycle_advanced [OF d e one] Suc.IH [OF more] show ?case
    by (rule advanced_trans)
qed

text \<open>
  Claim C4, for a positive \<open>minDeltaBatchExec\<close> and a \<open>getNextLowSecEnd\<close>
  that answers an instant at or after the one asked about (the spec's contract of the
  missing function: the smallest end of a window at or after the instant). Across any
  number of cycles of the main loop, and across one turn of a target, no target record is
  lost and no stored execution time goes down. \<open>ensureValidExecTime\<close> never
  lowers it, also when its loop is cut off; when the clock is in a hole and the loop
  returns, the time is at least the next end of a hole plus \<open>minDeltaBatchExec\<close>
  plus the weaken time and collides with no hole. \<open>ensureFixed\<close> starts at most
  one batch, \<open>scheduleFullShotgun\<close> a number of copies of the target's batch,
  \<open>scheduleSubShotgun\<close> some batches; in each of them every batch is started at
  the execution time stored then, and every start adds \<open>minDeltaBatchExec\<close> to
  it, so that a call which starts a batch leaves the time strictly later.
\<close>

theorem execTime_never_decreases:
  assumes d: "0 < minDeltaBatchExec (st E)" and e: "\<forall>t. t \<le> getNextLowSecEnd (lb E) t"
  shows
   "(\<forall>n fuel s s'. cycles n fuel E s = Inr s' \<longrightarrow> advanced (targetsData s) (targetsData s')) \<and>
    (\<forall>fuel target s s'. forTarget fuel E target s = Inr s' \<longrightarrow>
       advanced (targetsData s) (targetsData s')) \<and>
    (\<forall>fuel w target td r td'.
       ensureValidExecTime fuel E w target td = (r, td') \<longrightarrow>
       execTime td \<le> execTime td' \<and>
       (inLowSecHole (lb E) (dateNow w) \<and> r \<noteq> None \<longrightarrow>
          getNextLowSecEnd (lb E) (dateNow w) + minDeltaBatchExec (st E) + getWeakenTime w target
            \<le> execTime td' \<and>
          \<not> collides E (execTime td'))) \<and>
    (\<forall>target td m b td' m'.
       ensureFixed E target td m = (b, td', m') \<longrightarrow>
       (\<exists>bs. length bs \<le> 1 \<and> dispatched E target bs td m td' m')) \<and>
    (\<forall>target td m td' m'.
       scheduleFullShotgun E target td m = Inr (td', m') \<longrightarrow>
       (\<exists>n. dispatched E target (replicate n (batch td)) td m td' m')) \<and>
    (\<forall>target td ts ram sbd m x td' m'.
       scheduleSubShotgun E target td ts ram sbd m = Inr (x, td', m') \<longrightarrow>
       (\<exists>bs. dispatched E target bs td m td' m')) \<and>
    (\<forall>target bs td m td' m'.
       dispatched E target bs td m td' m' \<and> bs \<noteq> [] \<longrightarrow> execTime td < execTime td')"
proof -
  from d have d0: "0 \<le> minDeltaBatchExec (st E)" by simp
  have c1: "\<forall>n fuel s s'. cycles n fuel E s = Inr s' \<longrightarrow> advanced (targetsData s) (targetsData s')"
    using cycles_advanced [OF d0 e] by blast
  have c2: "\<forall>fuel target s s'. forTarget fuel E target s = Inr s' \<longrightarrow>
       advanced (targetsData s) (targetsData s')"
    using forTarget_advanced [OF d0 e] by blast
  have c3: "\<forall>fuel w target td r td'.
       ensureValidExecTime fuel E w target td = (r, td') \<longrightarrow>
       execTime td \<le> execTime td' \<and>
       (inLowSecHole (lb E) (dateNow w) \<and> r \<noteq> None \<longrightarrow>
          getNextLowSecEnd (lb E) (dateNow w) + minDeltaBatchExec (st E) + getWeakenTime w target
            \<le> execTime td' \<and>
          \<not> collides E (execTime td'))"
  proof (intro allI impI conjI)
    fix fuel w target td r td'
    assume v: "ensureValidExecTime fuel E w target td = (r, td')"
    show "execTime td \<le> execTime td'"
      by (rule ensureValidExecTime_le [OF d0 e v])
    assume h: "inLowSecHole (lb E) (dateNow w) \<and> r \<noteq> None"
    then obtain b where "r = Some b" by auto
    with v h have p: "getNextLowSecEnd (lb E) (dateNow w) + minDeltaBatchExec (st E)
                        + getWeakenTime w target \<le> execTime td' \<and> \<not> collides E (execTime td')"
      using ensureValidExecTime_post by blast
    from p show "getNextLowSecEnd (lb E) (dateNow w) + minDeltaBatchExec (st E)
                        + getWeakenTime w target \<le> execTime td'" ..
    from p show "\<not> collides E (execTime td')" ..
  qed
  have c4: "\<forall>target td m b td' m'.
       ensureFixed E target td m = (b, td', m') \<longrightarrow>
       (\<exists>bs. length bs \<le> 1 \<and> dispatched E target bs td m td' m')"
    using ensureFixed_dispatched by blast
  have c5: "\<forall>target td m td' m'.
       scheduleFullShotgun E target td m = Inr (td', m') \<longrightarrow>
       (\<exists>n. dispatched E target (replicate n (batch td)) td m td' m')"
    using scheduleFullShotgun_dispatched by blast
  have c6: "\<forall>target td ts ram sbd m x td' m'.
       scheduleSubShotgun E target td ts ram sbd m = Inr (x, td', m') \<longrightarrow>
       (\<exists>bs. dispatched E target bs td m td' m')"
    using scheduleSubShotgun_dispatched by blast
  have c7: "\<forall>target bs td m td' m'.
       dispatched E target bs td m td' m' \<and> bs \<noteq> [] \<longrightarrow> execTime td < execTime td'"
    using dispatched_less [OF d] by blast
  from c1 c2 c3 c4 c5 c6 c7 show ?thesis by (intro conjI)
qed


lemma example_hole_end: "\<forall>t. t \<le> getNextLowSecEnd (lb E0) t"
proof
  fix t :: real
  define c :: real where "c = of_int \<lceil>(t - 100) / 1000\<rceil>"
  have "(t - 100) / 1000 \<le> c" unfolding c_def by (rule le_of_int_ceiling)
  then have "t \<le> 1000 * c + 100" by simp
  then show "t \<le> getNextLowSecEnd (lb E0) t" by (simp add: example_defs c_def)
qed

lemma example_run:
  "(case cycles 2 5 E0 (initialHsb E0 m0) of
      Inl e \<Rightarrow> []
    | Inr s \<Rightarrow> map (\<lambda>(t, td). (t, execTime td)) (targetsData s)) =
   [(''home'', 1000050), (''n00dles'', 1005200), (''foodnstuff'', 1005200), (''pserv-0'', 1000050)]"
  by code_simp

lemma example_start:
  "map_of (targetsData (initialHsb E0 m0)) ''n00dles'' =
     Some \<lparr>execTime = 1000050, fixedStatus = Deadline 0, batch = hwgw,
           baseSecurity = 10, baseMoney = 500\<rparr>"
  by (simp add: initialHsb_def getTargetsData_def example_defs)

lemma example_shotgun:
  "(case scheduleFullShotgun E0 ''n00dles'' td0 m0 of
      Inl e \<Rightarrow> None
    | Inr (td, m) \<Rightarrow> Some (execTime td, started m)) =
   Some (1003400,
     [StartBatch ''n00dles'' hwgw 1003150, StartBatch ''n00dles'' hwgw 1003200,
      StartBatch ''n00dles'' hwgw 1003250, StartBatch ''n00dles'' hwgw 1003300,
      StartBatch ''n00dles'' hwgw 1003350])"
  by code_simp

theorem execTime_never_decreases_witness:
  "0 < minDeltaBatchExec (st E0) \<and> (\<forall>t. t \<le> getNextLowSecEnd (lb E0) t) \<and>
   (\<exists>s' td'. cycles 2 5 E0 (initialHsb E0 m0) = Inr s' \<and>
      map_of (targetsData s') ''n00dles'' = Some td' \<and> (1000050::real) \<le> execTime td' \<and>
      map (\<lambda>(t, td). (t, execTime td)) (targetsData s') =
        [(''home'', 1000050), (''n00dles'', 1005200), (''foodnstuff'', 1005200),
         (''pserv-0'', 1000050)]) \<and>
   (\<exists>td' m'. scheduleFullShotgun E0 ''n00dles'' td0 m0 = Inr (td', m') \<and>
      execTime td0 < execTime td' \<and> execTime td' = 1003400 \<and>
      started m' =
        [StartBatch ''n00dles'' hwgw 1003150, StartBatch ''n00dles'' hwgw 1003200,
         StartBatch ''n00dles'' hwgw 1003250, StartBatch ''n00dles'' hwgw 1003300,
         StartBatch ''n00dles'' hwgw 1003350])"
proof -
  have d: "0 < minDeltaBatchExec (st E0)" by (simp add: example_defs)
  note facts = execTime_never_decreases [OF d example_hole_end]
  from example_run obtain s' where
    run: "cycles 2 5 E0 (initialHsb E0 m0) = Inr s'"
    and times: "map (\<lambda>(t, td). (t, execTime td)) (targetsData s') =
        [(''home'', 1000050), (''n00dles'', 1005200), (''foodnstuff'', 1005200),
         (''pserv-0'', 1000050)]"
    by (cases "cycles 2 5 E0 (initialHsb E0 m0)") simp_all
  note c1 = facts [THEN conjunct1, rule_format]
  note c5 = facts [THEN conjunct2, THEN conjunct2, THEN conjunct2, THEN conjunct2,
                   THEN conjunct1, rule_format]
  note c7 = facts [THEN conjunct2, THEN conjunct2, THEN conjunct2, THEN conjunct2,
                   THEN conjunct2, THEN conjunct2, rule_format]
  from run have "advanced (targetsData (initialHsb E0 m0)) (targetsData s')"
    by (rule c1)
  with example_start obtain td' where
    look: "map_of (targetsData s') ''n00dles'' = Some td'" and le: "1000050 \<le> execTime td'"
    unfolding advanced_def by fastforce
  from example_shotgun obtain td2 m2 where
    sh: "scheduleFullShotgun E0 ''n00dles'' td0 m0 = Inr (td2, m2)"
    and r: "execTime td2 = 1003400"
       "started m2 =
        [StartBatch ''n00dles'' hwgw 1003150, StartBatch ''n00dles'' hwgw 1003200,
         StartBatch ''n00dles'' hwgw 1003250, StartBatch ''n00dles'' hwgw 1003300,
         StartBatch ''n00dles'' hwgw 1003350]"
    by (cases "scheduleFullShotgun E0 ''n00dles'' td0 m0") auto
  from c5 [OF sh] obtain n where n: "dispatched E0 ''n00dles'' (replicate n (batch td0)) td0 m0 td2 m2"
    by blast
  have "n \<noteq> 0"
  proof
    assume "n = 0"
    with n have "started m2 = started m0" by (simp add: dispatched_def)
    with r show False by (simp add: m0_def)
  qed
  then have "replicate n (batch td0) \<noteq> []" by simp
  with n have "dispatched E0 ''n00dles'' (replicate n (batch td0)) td0 m0 td2 m2 \<and>
               replicate n (batch td0) \<noteq> []" by simp
  then have lt: "execTime td0 < execTime td2" by (rule c7)
  have A: "\<exists>s' td'. cycles 2 5 E0 (initialHsb E0 m0) = Inr s' \<and>
      map_of (targetsData s') ''n00dles'' = Some td' \<and> (1000050::real) \<le> execTime td' \<and>
      map (\<lambda>(t, td). (t, execTime td)) (targetsData s') =
        [(''home'', 1000050), (''n00dles'', 1005200), (''foodnstuff'', 1005200),
         (''pserv-0'', 1000050)]"
    using run look le times by (intro exI [of _ s'] exI [of _ td']) simp
  have B: "\<exists>td' m'. scheduleFullShotgun E0 ''n00dles'' td0 m0 = Inr (td', m') \<and>
      execTime td0 < execTime td' \<and> execTime td' = 1003400 \<and>
      started m' =
        [StartBatch ''n00dles'' hwgw 1003150, StartBatch ''n00dles'' hwgw 1003200,
         StartBatch ''n00dles'' hwgw 1003250, StartBatch ''n00dles'' hwgw 1003300,
         StartBatch ''n00dles'' hwgw 1003350]"
    using sh r lt by (intro exI [of _ td2] exI [of _ m2]) simp
  from d example_hole_end A B show ?thesis by (intro conjI)
qed

end
